theory Spec2Isabelle
  imports Complex_Main "HOL-Library.Sublist"
begin

section \<open>The workflow editor of frontend/app/tools/workflow/page.tsx\<close>

text \<open>
  The editor keeps a graph of nodes and edges in React state and changes it from event
  handlers that run one at a time. Each handler is embedded as a function from the state
  it reads to the state it leaves. JavaScript numbers are idealised as reals; the layout
  arithmetic below only produces integers. A value that may be \<open>undefined\<close> or
  \<open>null\<close> is an \<open>option\<close>. Presentation-only fields (icons, edge animation and stroke
  style) are left out of the records.
\<close>

subsection \<open>Data model\<close>

text \<open>\<open>{ x: number; y: number }\<close>\<close>

record position =
  pos_x :: real
  pos_y :: real

datatype param_value = PString string | PNumber real | PBool bool

type_synonym params = "(string \<times> param_value) list"

text \<open>The interface \<open>NodeData\<close>: only \<open>label\<close> is a required field.\<close>

record node_data =
  label :: string
  description :: "string option"
  category :: "string option"
  params :: "params option"
  nodeType :: "string option"

text \<open>
  A React Flow node: \<open>id\<close>, \<open>type\<close> (the component name, \<open>workflowNode\<close> at every
  place this file creates a node), \<open>position\<close> and \<open>data\<close>.
\<close>

record node =
  n_id :: string
  n_type :: string
  n_position :: position
  n_data :: node_data

text \<open>A React Flow edge: \<open>id\<close>, \<open>source\<close>, \<open>target\<close> and the two optional handle names.\<close>

record edge =
  e_id :: string
  source :: string
  target :: string
  sourceHandle :: "string option"
  targetHandle :: "string option"

text \<open>The interface \<open>ConnectionRule\<close> (its optional fields \<open>acceptsFrom\<close> and
  \<open>outputsTo\<close> are set by no entry and read by no code).\<close>

record connection_rule =
  canHaveInput :: bool
  canHaveOutput :: bool
  maxInputs :: int
  maxOutputs :: int

subsection \<open>The connection rule table\<close>

definition mkRule :: "bool \<Rightarrow> bool \<Rightarrow> int \<Rightarrow> int \<Rightarrow> connection_rule" where
  "mkRule i out mi mo =
     \<lparr>canHaveInput = i, canHaveOutput = out, maxInputs = mi, maxOutputs = mo\<rparr>"

text \<open>The own entries of the object literal \<open>connectionRules\<close>, in source order.\<close>

definition connectionRulesEntries :: "(string \<times> connection_rule) list" where
  "connectionRulesEntries =
    [(''input_file'', mkRule False True 0 (-1)),
     (''input_folder'', mkRule False True 0 (-1)),
     (''pdf_merge'', mkRule True True (-1) (-1)),
     (''pdf_split'', mkRule True True 1 (-1)),
     (''pdf_compress'', mkRule True True 1 (-1)),
     (''pdf_watermark'', mkRule True True 1 (-1)),
     (''pdf_encrypt'', mkRule True True 1 (-1)),
     (''ai_compare'', mkRule True True 2 (-1)),
     (''ai_pii_detect'', mkRule True True 1 (-1)),
     (''ai_extract_table'', mkRule True True 1 (-1)),
     (''ai_smart_rename'', mkRule True True 1 (-1)),
     (''ai_summarize'', mkRule True True 1 (-1)),
     (''ai_translate'', mkRule True True 1 (-1)),
     (''convert_to_image'', mkRule True True 1 (-1)),
     (''output_save'', mkRule True False (-1) 0)]"

text \<open>
  \<open>connectionRules\<close> is a plain object literal, and the validator reads it with
  \<open>connectionRules[sourceType]\<close>. A property read on a plain object that finds no own
  property continues in \<open>Object.prototype\<close>, so for the names below the read does not give
  \<open>undefined\<close> but the inherited member (a function, or for \<open>__proto__\<close> the prototype
  object itself). These are the property names of \<open>Object.prototype\<close> in ECMAScript
  (with its annex for web browsers).
\<close>

definition objectPrototypeMembers :: "string list" where
  "objectPrototypeMembers =
    [''constructor'', ''hasOwnProperty'', ''isPrototypeOf'', ''propertyIsEnumerable'',
     ''toLocaleString'', ''toString'', ''valueOf'', ''__proto__'',
     ''__defineGetter__'', ''__defineSetter__'', ''__lookupGetter__'', ''__lookupSetter__'']"

text \<open>What the expression \<open>connectionRules[t]\<close> evaluates to.\<close>

datatype rule_lookup = Undefined | OwnRule connection_rule | InheritedMember

definition connectionRules :: "string \<Rightarrow> rule_lookup" where
  "connectionRules t =
     (case map_of connectionRulesEntries t of
        Some r \<Rightarrow> OwnRule r
      | None \<Rightarrow> if t \<in> set objectPrototypeMembers then InheritedMember else Undefined)"

subsection \<open>The connection validator\<close>

text \<open>
  The validator returns \<open>{ valid: true }\<close> or \<open>{ valid: false, error: message }\<close>; every
  rejecting return sets \<open>error\<close>. The messages are template strings in Chinese; a
  rejection is embedded as the template together with the values it interpolates:
  \<^item> \<open>NodeNotFound\<close>: the node-not-found message;
  \<^item> \<open>CannotBeOutputSource l\<close>: label \<open>l\<close> cannot be used as an output source;
  \<^item> \<open>CannotReceiveInput l\<close>: label \<open>l\<close> cannot receive input;
  \<^item> \<open>AiCompareInputsFull c\<close>: the AI contract comparison already has \<open>c\<close> inputs
    connected (at most 2);
  \<^item> \<open>MaxInputsReached l m\<close>: label \<open>l\<close> has reached its maximum number of inputs
    (\<open>m\<close>);
  \<^item> \<open>SelfConnection\<close>: a node cannot be connected to itself;
  \<^item> \<open>DuplicateConnection\<close>: the same connection already exists.
\<close>

datatype rejection =
    NodeNotFound
  | CannotBeOutputSource string
  | CannotReceiveInput string
  | AiCompareInputsFull nat
  | MaxInputsReached string int
  | SelfConnection
  | DuplicateConnection

datatype validation = Valid | Invalid rejection

text \<open>\<open>(n.data as NodeData).nodeType || ''\<close>\<close>

definition nodeTypeOrEmpty :: "node \<Rightarrow> string" where
  "nodeTypeOrEmpty n = (case nodeType (n_data n) of None \<Rightarrow> [] | Some t \<Rightarrow> t)"

text \<open>
  \<open>sourceRule && !sourceRule.canHaveOutput\<close>: an inherited member is truthy and has no
  property \<open>canHaveOutput\<close>, so the negation of \<open>undefined\<close> makes the test true.
\<close>

definition blocksOutput :: "rule_lookup \<Rightarrow> bool" where
  "blocksOutput r =
     (case r of Undefined \<Rightarrow> False | OwnRule c \<Rightarrow> \<not> canHaveOutput c | InheritedMember \<Rightarrow> True)"

text \<open>\<open>targetRule && !targetRule.canHaveInput\<close>\<close>

definition blocksInput :: "rule_lookup \<Rightarrow> bool" where
  "blocksInput r =
     (case r of Undefined \<Rightarrow> False | OwnRule c \<Rightarrow> \<not> canHaveInput c | InheritedMember \<Rightarrow> True)"

text \<open>
  \<open>targetRule && targetRule.maxInputs > 0\<close> followed by
  \<open>currentInputCount >= targetRule.maxInputs\<close>: the limit when both tests hold
  (\<open>undefined > 0\<close> is false, so an inherited member never passes the first).
\<close>

definition inputsFull :: "rule_lookup \<Rightarrow> nat \<Rightarrow> int option" where
  "inputsFull r cnt =
     (case r of
        Undefined \<Rightarrow> None
      | OwnRule c \<Rightarrow> if maxInputs c > 0 \<and> int cnt \<ge> maxInputs c then Some (maxInputs c) else None
      | InheritedMember \<Rightarrow> None)"

text \<open>\<open>edges.filter(e => e.target === target).length\<close>\<close>

definition currentInputCount :: "edge list \<Rightarrow> string \<Rightarrow> nat" where
  "currentInputCount eds tgt = length (filter (\<lambda>e. target e = tgt) eds)"

definition validateConnection :: "node list \<Rightarrow> edge list \<Rightarrow> string \<Rightarrow> string \<Rightarrow> validation" where
  "validateConnection nds eds src tgt =
     (case find (\<lambda>n. n_id n = src) nds of
        None \<Rightarrow> Invalid NodeNotFound
      | Some sourceNode \<Rightarrow>
     (case find (\<lambda>n. n_id n = tgt) nds of
        None \<Rightarrow> Invalid NodeNotFound
      | Some targetNode \<Rightarrow>
        let sourceType = nodeTypeOrEmpty sourceNode;
            targetType = nodeTypeOrEmpty targetNode;
            sourceRule = connectionRules sourceType;
            targetRule = connectionRules targetType
        in
          if blocksOutput sourceRule
            then Invalid (CannotBeOutputSource (label (n_data sourceNode)))
          else if blocksInput targetRule
            then Invalid (CannotReceiveInput (label (n_data targetNode)))
          else
            (case inputsFull targetRule (currentInputCount eds tgt) of
               Some m \<Rightarrow>
                 if targetType = ''ai_compare''
                   then Invalid (AiCompareInputsFull (currentInputCount eds tgt))
                   else Invalid (MaxInputsReached (label (n_data targetNode)) m)
             | None \<Rightarrow>
                 if src = tgt then Invalid SelfConnection
                 else if find (\<lambda>e. source e = src \<and> target e = tgt) eds \<noteq> None
                   then Invalid DuplicateConnection
                 else Valid)))"

subsection \<open>The editor state and the handlers that change the graph\<close>

text \<open>
  Of the state of the component, the parts that the handlers below read or write. (The
  execution result, the uploaded files and the flags of the dialogs play no part in them.)
\<close>

record editor_state =
  nodes :: "node list"
  edges :: "edge list"
  selectedNode :: "node option"
  connectionError :: "rejection option"
  workflowName :: string
  workflowId :: "string option"

text \<open>The \<open>Connection\<close> handed to \<open>onConnect\<close>: each field is a string or \<open>null\<close>.\<close>

record connection =
  c_source :: "string option"
  c_target :: "string option"
  c_sourceHandle :: "string option"
  c_targetHandle :: "string option"

text \<open>
  Modelled from the spec: \<open>addEdge\<close> is imported from the library \<open>@xyflow/react\<close> and
  is not part of the sources. The spec says of the connect operation that "on acceptance
  [it] appends the edge": the new edge is put at the end of the edge list.
\<close>

definition addEdge :: "edge \<Rightarrow> edge list \<Rightarrow> edge list" where
  "addEdge e eds = eds @ [e]"

text \<open>
  \<open>onConnect\<close>: without a source or a target nothing happens; a rejected connection only
  sets \<open>connectionError\<close> (a timer clears it three seconds later, which is outside this
  model); an accepted one is handed to \<open>addEdge\<close> with the fields of the connection. The
  library chooses the id of the new edge; it is the argument \<open>newId\<close>.
\<close>

definition onConnect :: "string \<Rightarrow> connection \<Rightarrow> editor_state \<Rightarrow> editor_state" where
  "onConnect newId c s =
     (case (c_source c, c_target c) of
        (Some src, Some tgt) \<Rightarrow>
          if src = [] \<or> tgt = [] then s
          else (case validateConnection (nodes s) (edges s) src tgt of
                  Invalid r \<Rightarrow> s\<lparr>connectionError := Some r\<rparr>
                | Valid \<Rightarrow>
                    s\<lparr>edges :=
                        addEdge \<lparr>e_id = newId, source = src, target = tgt,
                                 sourceHandle = c_sourceHandle c,
                                 targetHandle = c_targetHandle c\<rparr> (edges s)\<rparr>)
      | _ \<Rightarrow> s)"

text \<open>\<open>deleteSelectedNode\<close>\<close>

definition deleteSelectedNode :: "editor_state \<Rightarrow> editor_state" where
  "deleteSelectedNode s =
     (case selectedNode s of
        None \<Rightarrow> s
      | Some sel \<Rightarrow>
          s\<lparr>nodes := filter (\<lambda>n. n_id n \<noteq> n_id sel) (nodes s),
            edges := filter (\<lambda>e. source e \<noteq> n_id sel \<and> target e \<noteq> n_id sel) (edges s),
            selectedNode := None\<rparr>)"

subsection \<open>Auto-arrange\<close>

definition HORIZONTAL_GAP :: real where "HORIZONTAL_GAP = 250"
definition VERTICAL_GAP :: real where "VERTICAL_GAP = 120"
definition START_X :: real where "START_X = 100"
definition START_Y :: real where "START_Y = 100"

text \<open>
  A \<open>Set<string>\<close> is embedded as the list of its members in insertion order, which is
  the order \<open>Array.from\<close> reads them in; \<open>setAdd\<close> is its method \<open>add\<close>.
\<close>

definition setAdd :: "string list \<Rightarrow> string \<Rightarrow> string list" where
  "setAdd members v = (if v \<in> set members then members else members @ [v])"

text \<open>
  The filter of \<open>inputNodeIds\<close>:
  \<open>nodeType.startsWith('input_') || !edges.some((e) => e.target === n.id)\<close>
\<close>

definition isInputNode :: "edge list \<Rightarrow> node \<Rightarrow> bool" where
  "isInputNode eds n =
     (prefix ''input_'' (nodeTypeOrEmpty n) \<or> \<not> list_ex (\<lambda>e. target e = n_id n) eds)"

definition inputNodeIds :: "node list \<Rightarrow> edge list \<Rightarrow> string list" where
  "inputNodeIds nds eds = foldl setAdd [] (map n_id (filter (isInputNode eds) nds))"

text \<open>
  The body of the inner \<open>forEach\<close> over the outgoing edges of one node, and the two
  nested loops that build \<open>nextLevel\<close> from \<open>currentLevel\<close>.
\<close>

definition pushTarget :: "string list \<Rightarrow> string list \<Rightarrow> edge \<Rightarrow> string list" where
  "pushTarget visited nextLevel e =
     (if target e \<notin> set visited \<and> target e \<notin> set nextLevel
        then nextLevel @ [target e] else nextLevel)"

definition nextLevelOf :: "edge list \<Rightarrow> string list \<Rightarrow> string list \<Rightarrow> string list" where
  "nextLevelOf eds visited currentLevel =
     foldl (\<lambda>nextLevel nodeId.
              foldl (pushTarget visited) nextLevel (filter (\<lambda>e. source e = nodeId) eds))
       [] currentLevel"

lemma pushTarget_fold_set:
  "set (foldl (pushTarget visited) acc es) \<subseteq> set acc \<union> (target ` set es - set visited)"
proof (induction es arbitrary: acc)
  case Nil
  then show ?case by simp
next
  case (Cons e es)
  have "set (pushTarget visited acc e) \<subseteq> set acc \<union> ({target e} - set visited)"
    by (auto simp: pushTarget_def)
  with Cons.IH [of "pushTarget visited acc e"] show ?case by auto
qed

lemma nextLevel_fold_set:
  "set (foldl (\<lambda>nextLevel nodeId.
              foldl (pushTarget visited) nextLevel (filter (\<lambda>e. source e = nodeId) eds))
          acc cur) \<subseteq> set acc \<union> (target ` set eds - set visited)"
proof (induction cur arbitrary: acc)
  case Nil
  then show ?case by simp
next
  case (Cons c cur)
  have "set (foldl (pushTarget visited) acc (filter (\<lambda>e. source e = c) eds))
          \<subseteq> set acc \<union> (target ` set eds - set visited)"
    using pushTarget_fold_set [of visited acc "filter (\<lambda>e. source e = c) eds"] by auto
  with Cons.IH [of "foldl (pushTarget visited) acc (filter (\<lambda>e. source e = c) eds)"]
  show ?case by auto
qed

lemma nextLevelOf_subset:
  "set (nextLevelOf eds visited cur) \<subseteq> target ` set eds - set visited"
  using nextLevel_fold_set [of visited eds "[]" cur] by (simp add: nextLevelOf_def)

lemma set_foldl_setAdd: "set (foldl setAdd acc xs) = set acc \<union> set xs"
  by (induction xs arbitrary: acc) (auto simp: setAdd_def)

text \<open>
  The \<open>while (currentLevel.length > 0)\<close> loop, on the variables it changes:
  \<open>visited\<close>, \<open>levels\<close> and \<open>currentLevel\<close>. It returns \<open>visited\<close> and \<open>levels\<close> as
  they are when the loop ends.
\<close>

function bfsLoop ::
  "edge list \<Rightarrow> string list \<Rightarrow> string list list \<Rightarrow> string list
     \<Rightarrow> string list \<times> string list list" where
  "bfsLoop eds visited levels currentLevel =
     (if currentLevel = [] then (visited, levels)
      else
        let levels' = levels @ [currentLevel];
            visited' = foldl setAdd visited currentLevel
        in bfsLoop eds visited' levels' (nextLevelOf eds visited' currentLevel))"
  by pat_completeness auto
termination
proof (relation "measure (\<lambda>(eds, visited, levels, cur).
          card (target ` set eds - (set visited \<union> set cur)) + (if cur = [] then 0 else 1))",
       goal_cases)
  case 1
  show ?case by simp
next
  case (2 eds visited levels cur levels' visited')
  let ?T = "target ` set eds"
  let ?next = "nextLevelOf eds visited' cur"
  have v: "set visited' = set visited \<union> set cur"
    using 2 by (simp add: set_foldl_setAdd)
  have sub: "set ?next \<subseteq> ?T - set visited'"
    by (rule nextLevelOf_subset)
  show ?case
  proof (cases "?next = []")
    case True
    with 2 v show ?thesis by simp
  next
    case False
    then obtain t where t: "t \<in> set ?next" by (cases ?next) auto
    have "?T - (set visited' \<union> set ?next) \<subset> ?T - set visited'"
      using sub t by blast
    then have "card (?T - (set visited' \<union> set ?next)) < card (?T - set visited')"
      by (intro psubset_card_mono) auto
    with False 2 v show ?thesis by simp
  qed
qed

text \<open>The \<open>nodes.forEach\<close> that gives every node not yet visited a level of its own.\<close>

definition addUnconnected ::
  "string list \<times> string list list \<Rightarrow> node \<Rightarrow> string list \<times> string list list" where
  "addUnconnected st n =
     (case st of (visited, levels) \<Rightarrow>
        if n_id n \<notin> set visited then (setAdd visited (n_id n), levels @ [[n_id n]])
        else (visited, levels))"

definition computeLevels :: "node list \<Rightarrow> edge list \<Rightarrow> string list list" where
  "computeLevels nds eds =
     snd (foldl addUnconnected (bfsLoop eds [] [] (inputNodeIds nds eds)) nds)"

text \<open>
  The position given to the node at index \<open>nodeIndex\<close> of the level at index
  \<open>levelIndex\<close>, where \<open>len\<close> is \<open>level.length\<close>.
\<close>

definition levelY :: "nat \<Rightarrow> real" where
  "levelY len = START_Y + (real len - 1) * VERTICAL_GAP / 2"

definition newPosition :: "nat \<Rightarrow> nat \<Rightarrow> nat \<Rightarrow> position" where
  "newPosition levelIndex len nodeIndex =
     \<lparr>pos_x = START_X + real levelIndex * HORIZONTAL_GAP,
      pos_y = levelY len - (real len - 1) * VERTICAL_GAP / 2 + real nodeIndex * VERTICAL_GAP\<rparr>"

text \<open>
  The assignments \<open>newPositions[nodeId] = ...\<close> in the order the two nested \<open>forEach\<close>
  make them, and the record \<open>newPositions\<close> they leave (a later assignment to the same
  key replaces an earlier one).
\<close>

definition positionAssignments :: "string list list \<Rightarrow> (string \<times> position) list" where
  "positionAssignments levels =
     concat (map (\<lambda>(levelIndex, level).
                    map (\<lambda>(nodeIndex, nodeId).
                           (nodeId, newPosition levelIndex (length level) nodeIndex))
                      (enumerate 0 level))
               (enumerate 0 levels))"

definition newPositions :: "string list list \<Rightarrow> (string \<rightharpoonup> position)" where
  "newPositions levels =
     foldl (\<lambda>m (nodeId, p). m(nodeId \<mapsto> p)) Map.empty (positionAssignments levels)"

text \<open>
  \<open>autoArrangeNodes\<close>: \<open>position: newPositions[n.id] || n.position\<close> for every node.
  The id of every node has been assigned a position when the record is read (lemma
  \<open>computeLevels_ok\<close> below), so the read finds an own property and the fallback to the
  old position is never taken.
\<close>

definition autoArrangeNodes :: "editor_state \<Rightarrow> editor_state" where
  "autoArrangeNodes s =
     (if nodes s = [] then s
      else
        let np = newPositions (computeLevels (nodes s) (edges s))
        in s\<lparr>nodes :=
              map (\<lambda>n. n\<lparr>n_position :=
                            (case np (n_id n) of Some p \<Rightarrow> p | None \<Rightarrow> n_position n)\<rparr>)
                (nodes s)\<rparr>)"

text \<open>
  What the loops keep true of \<open>visited\<close> and \<open>levels\<close>: no id is in two places of
  \<open>levels\<close>, the ids in \<open>levels\<close> are the visited ones, and no level is empty.
\<close>

definition levelsOk :: "string list \<Rightarrow> string list list \<Rightarrow> bool" where
  "levelsOk visited levels \<longleftrightarrow>
     distinct (concat levels) \<and> set (concat levels) = set visited \<and> [] \<notin> set levels"

text \<open>
  The nodes of a node list whose id is in a given level, and the mean of their
  y-coordinates: the centre of the level as a group of nodes.
\<close>

definition nodesOfLevel :: "node list \<Rightarrow> string list \<Rightarrow> node list" where
  "nodesOfLevel nds level = filter (\<lambda>n. n_id n \<in> set level) nds"

definition levelMeanY :: "node list \<Rightarrow> string list \<Rightarrow> real" where
  "levelMeanY nds level =
     sum_list (map (\<lambda>n. pos_y (n_position n)) (nodesOfLevel nds level))
       / real (length (nodesOfLevel nds level))"

subsection \<open>Saving and loading\<close>

text \<open>
  The entries of \<open>nodeTypeDefinitions\<close> as (type, category, label); the labels are the
  UTF-8 bytes of the Chinese labels of the source. The icon and the parameter schema of an
  entry play no part in loading.
\<close>

definition nodeTypeDefinitions :: "(string \<times> string \<times> string) list" where
  "nodeTypeDefinitions =
    [(''input_file'', ''input'', [CHR 0xE6, CHR 0xAA, CHR 0x94, CHR 0xE6, CHR 0xA1,
        CHR 0x88, CHR 0xE8, CHR 0xBC, CHR 0xB8, CHR 0xE5, CHR 0x85, CHR 0xA5]),
     (''input_folder'', ''input'', [CHR 0xE8, CHR 0xB3, CHR 0x87, CHR 0xE6, CHR 0x96,
        CHR 0x99, CHR 0xE5, CHR 0xA4, CHR 0xBE, CHR 0xE8, CHR 0xBC, CHR 0xB8, CHR 0xE5,
        CHR 0x85, CHR 0xA5]),
     (''pdf_merge'', ''pdf'', [CHR 0xE5, CHR 0x90, CHR 0x88, CHR 0xE4, CHR 0xBD, CHR 0xB5,
        CHR 0x20, CHR 0x50, CHR 0x44, CHR 0x46]),
     (''pdf_split'', ''pdf'', [CHR 0xE5, CHR 0x88, CHR 0x86, CHR 0xE5, CHR 0x89, CHR 0xB2,
        CHR 0x20, CHR 0x50, CHR 0x44, CHR 0x46]),
     (''pdf_compress'', ''pdf'', [CHR 0xE5, CHR 0xA3, CHR 0x93, CHR 0xE7, CHR 0xB8,
        CHR 0xAE, CHR 0x20, CHR 0x50, CHR 0x44, CHR 0x46]),
     (''pdf_watermark'', ''pdf'', [CHR 0xE5, CHR 0x8A, CHR 0xA0, CHR 0xE6, CHR 0xB5,
        CHR 0xAE, CHR 0xE6, CHR 0xB0, CHR 0xB4, CHR 0xE5, CHR 0x8D, CHR 0xB0]),
     (''pdf_encrypt'', ''pdf'', [CHR 0xE5, CHR 0x8A, CHR 0xA0, CHR 0xE5, CHR 0xAF,
        CHR 0x86, CHR 0x20, CHR 0x50, CHR 0x44, CHR 0x46]),
     (''ai_compare'', ''ai'', [CHR 0x41, CHR 0x49, CHR 0x20, CHR 0xE5, CHR 0x90, CHR 0x88,
        CHR 0xE7, CHR 0xB4, CHR 0x84, CHR 0xE6, CHR 0xAF, CHR 0x94, CHR 0xE5, CHR 0xB0,
        CHR 0x8D]),
     (''ai_pii_detect'', ''ai'', [CHR 0x41, CHR 0x49, CHR 0x20, CHR 0xE5, CHR 0x80,
        CHR 0x8B, CHR 0xE8, CHR 0xB3, CHR 0x87, CHR 0xE5, CHR 0x81, CHR 0xB5, CHR 0xE6,
        CHR 0xB8, CHR 0xAC]),
     (''ai_extract_table'', ''ai'', [CHR 0x41, CHR 0x49, CHR 0x20, CHR 0xE8, CHR 0xA1,
        CHR 0xA8, CHR 0xE6, CHR 0xA0, CHR 0xBC, CHR 0xE6, CHR 0x8F, CHR 0x90, CHR 0xE5,
        CHR 0x8F, CHR 0x96]),
     (''ai_smart_rename'', ''ai'', [CHR 0x41, CHR 0x49, CHR 0x20, CHR 0xE6, CHR 0x99,
        CHR 0xBA, CHR 0xE8, CHR 0x83, CHR 0xBD, CHR 0xE9, CHR 0x87, CHR 0x8D, CHR 0xE5,
        CHR 0x91, CHR 0xBD, CHR 0xE5, CHR 0x90, CHR 0x8D]),
     (''ai_summarize'', ''ai'', [CHR 0x41, CHR 0x49, CHR 0x20, CHR 0xE6, CHR 0x91,
        CHR 0x98, CHR 0xE8, CHR 0xA6, CHR 0x81]),
     (''ai_translate'', ''ai'', [CHR 0x41, CHR 0x49, CHR 0x20, CHR 0xE7, CHR 0xBF,
        CHR 0xBB, CHR 0xE8, CHR 0xAD, CHR 0xAF]),
     (''convert_to_image'', ''convert'', [CHR 0xE8, CHR 0xBD, CHR 0x89, CHR 0xE7, CHR 0x82,
        CHR 0xBA, CHR 0xE5, CHR 0x9C, CHR 0x96, CHR 0xE7, CHR 0x89, CHR 0x87]),
     (''output_save'', ''output'', [CHR 0xE5, CHR 0x84, CHR 0xB2, CHR 0xE5, CHR 0xAD,
        CHR 0x98, CHR 0xE6, CHR 0xAA, CHR 0x94, CHR 0xE6, CHR 0xA1, CHR 0x88])]"

text \<open>The JSON objects that are sent to and fetched from the workflow service.\<close>

record saved_config =
  cfg_label :: "string option"
  cfg_description :: "string option"
  cfg_params :: "params option"

record saved_node =
  sn_id :: string
  sn_type :: string
  sn_position :: position
  sn_config :: "saved_config option"

record saved_connection =
  sc_id :: string
  source_node :: string
  target_node :: string
  source_handle :: "string option"
  target_handle :: "string option"

record workflow =
  wf_id :: "string option"
  wf_name :: "string option"
  wf_description :: "string option"
  wf_nodes :: "saved_node list option"
  wf_connections :: "saved_connection list option"
  wf_detail :: "string option"

text \<open>\<open>a || b\<close> on strings: \<open>b\<close> when \<open>a\<close> is \<open>undefined\<close>, \<open>null\<close> or empty.\<close>

definition orElse :: "string option \<Rightarrow> string \<Rightarrow> string" where
  "orElse a b = (case a of None \<Rightarrow> b | Some v \<Rightarrow> if v = [] then b else v)"

text \<open>
  The object \<open>workflow\<close> that \<open>saveWorkflow\<close> builds and posts. (What the service
  answers, and the \<open>workflowId\<close> the editor takes from the answer, are outside this model.)
\<close>

definition saveNode :: "node \<Rightarrow> saved_node" where
  "saveNode n =
     \<lparr>sn_id = n_id n,
      sn_type = orElse (nodeType (n_data n)) (n_type n),
      sn_position = n_position n,
      sn_config = Some \<lparr>cfg_label = Some (label (n_data n)),
                         cfg_description = Some (orElse (description (n_data n)) []),
                         cfg_params = Some (case params (n_data n) of None \<Rightarrow> [] | Some ps \<Rightarrow> ps)\<rparr>\<rparr>"

definition saveConnection :: "edge \<Rightarrow> saved_connection" where
  "saveConnection e =
     \<lparr>sc_id = e_id e,
      source_node = source e,
      target_node = target e,
      source_handle = Some (orElse (sourceHandle e) ''output''),
      target_handle = Some (orElse (targetHandle e) ''input'')\<rparr>"

definition saveWorkflow :: "editor_state \<Rightarrow> workflow" where
  "saveWorkflow s =
     \<lparr>wf_id = (case workflowId s of None \<Rightarrow> None | Some i \<Rightarrow> if i = [] then None else Some i),
      wf_name = Some (workflowName s),
      wf_description = Some [],
      wf_nodes = Some (map saveNode (nodes s)),
      wf_connections = Some (map saveConnection (edges s)),
      wf_detail = None\<rparr>"

text \<open>
  \<open>loadWorkflow(id)\<close>, given the JSON object that the fetch returned. An answer with a
  truthy \<open>detail\<close> is an error and leaves the state as it is.
\<close>

definition loadNode :: "saved_node \<Rightarrow> node" where
  "loadNode n =
     (let nodeDef = find (\<lambda>d. fst d = sn_type n) nodeTypeDefinitions;
          config = sn_config n
      in \<lparr>n_id = sn_id n,
          n_type = ''workflowNode'',
          n_position = sn_position n,
          n_data =
            \<lparr>label =
               orElse (case config of None \<Rightarrow> None | Some c \<Rightarrow> cfg_label c)
                 (orElse (case nodeDef of None \<Rightarrow> None | Some d \<Rightarrow> Some (snd (snd d)))
                    (sn_type n)),
             description =
               Some (orElse (case config of None \<Rightarrow> None | Some c \<Rightarrow> cfg_description c) []),
             category =
               Some (orElse (case nodeDef of None \<Rightarrow> None | Some d \<Rightarrow> Some (fst (snd d)))
                       ''pdf''),
             params =
               Some (case config of
                       None \<Rightarrow> []
                     | Some c \<Rightarrow> (case cfg_params c of None \<Rightarrow> [] | Some ps \<Rightarrow> ps)),
             nodeType = Some (sn_type n)\<rparr>\<rparr>)"

definition loadEdge :: "saved_connection \<Rightarrow> edge" where
  "loadEdge c =
     \<lparr>e_id = sc_id c, source = source_node c, target = target_node c,
      sourceHandle = None, targetHandle = None\<rparr>"

definition loadedWorkflowName :: string where
  "loadedWorkflowName =
     [CHR 0xE8, CHR 0xBC, CHR 0x89, CHR 0xE5, CHR 0x85, CHR 0xA5, CHR 0xE7, CHR 0x9A,
        CHR 0x84, CHR 0xE5, CHR 0xB7, CHR 0xA5, CHR 0xE4, CHR 0xBD, CHR 0x9C, CHR 0xE6,
        CHR 0xB5, CHR 0x81]"

definition loadWorkflow :: "string \<Rightarrow> workflow \<Rightarrow> editor_state \<Rightarrow> editor_state" where
  "loadWorkflow wid result s =
     (if orElse (wf_detail result) [] \<noteq> [] then s
      else
        s\<lparr>nodes := map loadNode (case wf_nodes result of None \<Rightarrow> [] | Some ns \<Rightarrow> ns),
          edges := map loadEdge (case wf_connections result of None \<Rightarrow> [] | Some cs \<Rightarrow> cs),
          workflowName := orElse (wf_name result) loadedWorkflowName,
          workflowId := Some wid,
          selectedNode := None\<rparr>)"

text \<open>
  The node that \<open>onDrop\<close> builds for a palette entry of the given type, label and
  category at the drop position. Its id is made from the type and the current time in the
  source and is an argument here.
\<close>

definition newNode :: "string \<Rightarrow> string \<Rightarrow> string \<Rightarrow> string \<Rightarrow> position \<Rightarrow> node" where
  "newNode nodeId ty lbl cat pos =
     \<lparr>n_id = nodeId, n_type = ''workflowNode'', n_position = pos,
      n_data = \<lparr>label = lbl, description = None, category = Some cat,
                params = Some [], nodeType = Some ty\<rparr>\<rparr>"

subsection \<open>Example graphs\<close>

definition origin :: position where
  "origin = \<lparr>pos_x = 0, pos_y = 0\<rparr>"

definition plainEdge :: "string \<Rightarrow> string \<Rightarrow> string \<Rightarrow> edge" where
  "plainEdge i a b =
     \<lparr>e_id = i, source = a, target = b, sourceHandle = None, targetHandle = None\<rparr>"

definition editorWith :: "node list \<Rightarrow> edge list \<Rightarrow> node option \<Rightarrow> editor_state" where
  "editorWith nds eds sel =
     \<lparr>nodes = nds, edges = eds, selectedNode = sel, connectionError = None,
      workflowName = ''w'', workflowId = None\<rparr>"

definition connect :: "string \<Rightarrow> string \<Rightarrow> connection" where
  "connect a b =
     \<lparr>c_source = Some a, c_target = Some b, c_sourceHandle = None, c_targetHandle = None\<rparr>"

definition fileNode :: node where
  "fileNode = newNode ''in1'' ''input_file'' ''File'' ''input'' origin"

definition splitNode :: node where
  "splitNode = newNode ''split1'' ''pdf_split'' ''Split'' ''pdf'' origin"

definition mergeNode :: node where
  "mergeNode = newNode ''merge1'' ''pdf_merge'' ''Merge'' ''pdf'' origin"

definition saveNode1 :: node where
  "saveNode1 = newNode ''out1'' ''output_save'' ''Save'' ''output'' origin"

text \<open>
  A fetched workflow whose two nodes have types without an entry in \<open>connectionRules\<close>
  and without a definition in \<open>nodeTypeDefinitions\<close>, and one connection that names its
  handles.
\<close>

definition foreignWorkflow :: workflow where
  "foreignWorkflow =
     \<lparr>wf_id = Some ''wf1'', wf_name = Some ''Foreign'', wf_description = Some [],
      wf_nodes = Some
        [\<lparr>sn_id = ''n1'', sn_type = ''constructor'', sn_position = origin,
          sn_config = Some \<lparr>cfg_label = Some ''Step'', cfg_description = None,
                             cfg_params = None\<rparr>\<rparr>,
         \<lparr>sn_id = ''n2'', sn_type = ''ocr_text'', sn_position = origin,
          sn_config = Some \<lparr>cfg_label = Some ''OCR'', cfg_description = None,
                             cfg_params = None\<rparr>\<rparr>],
      wf_connections = Some
        [\<lparr>sc_id = ''c1'', source_node = ''n2'', target_node = ''n1'',
          source_handle = Some ''left'', target_handle = Some ''right''\<rparr>],
      wf_detail = None\<rparr>"

text \<open>A node whose data has no \<open>nodeType\<close>, which the interface \<open>NodeData\<close> allows.\<close>

definition untypedNode :: node where
  "untypedNode =
     \<lparr>n_id = ''u1'', n_type = ''workflowNode'', n_position = origin,
      n_data = \<lparr>label = ''Untyped'', description = None, category = None,
                params = None, nodeType = None\<rparr>\<rparr>"

text \<open>One input feeding a split and a merge: two levels, of one and of two nodes.\<close>

definition fanOut :: editor_state where
  "fanOut =
     editorWith [fileNode, splitNode, mergeNode]
       [plainEdge ''e1'' ''in1'' ''split1'', plainEdge ''e2'' ''in1'' ''merge1''] None"

lemmas example_defs =
  origin_def plainEdge_def editorWith_def connect_def newNode_def
  fileNode_def splitNode_def mergeNode_def saveNode1_def untypedNode_def fanOut_def

lemmas validator_defs =
  validateConnection_def nodeTypeOrEmpty_def connectionRules_def connectionRulesEntries_def
  objectPrototypeMembers_def mkRule_def blocksOutput_def blocksInput_def inputsFull_def
  currentInputCount_def

section \<open>The connection validator\<close>

lemma table_entry:
  assumes "connectionRules t = OwnRule r"
  shows "(t, r) \<in> set connectionRulesEntries"
  using assms
  by (auto simp: connectionRules_def split: option.splits if_splits dest: map_of_SomeD)

text \<open>
  In the table, a limit of 0 comes with \<open>canHaveInput = false\<close>, a positive limit with
  \<open>canHaveInput = true\<close>, and the only other value is -1.
\<close>

lemma table_input_limits:
  assumes "connectionRules t = OwnRule r"
  shows "(maxInputs r = 0 \<and> \<not> canHaveInput r) \<or> (0 < maxInputs r \<and> canHaveInput r)
       \<or> maxInputs r = -1"
  using table_entry [OF assms] by (auto simp: connectionRulesEntries_def mkRule_def)

subsection \<open>Order of the checks and self-connections\<close>

text \<open>
  C1 (as the code has it). For every connection attempt the validator makes its checks in
  this order, and the first one that fails gives the rejection: (1) both endpoints exist,
  (2) the source type may have an output, (3) the target type may have an input, (4) the
  target has room for one more input, (5) source and target differ, (6) the edge is not
  there yet; an attempt that passes all six is accepted. The self-connection check comes
  after the three rule checks, not before them. So a connection from an existing node to
  itself is always rejected, and the reason is the self-connection reason exactly when the
  node passes the three rule checks; otherwise it is the reason of the first rule check
  that fails.
\<close>

theorem validateConnection_order:
  "(find (\<lambda>n. n_id n = src) nds = None \<or> find (\<lambda>n. n_id n = tgt) nds = None \<longrightarrow>
      validateConnection nds eds src tgt = Invalid NodeNotFound)
   \<and> (\<forall>sn tn.
        find (\<lambda>n. n_id n = src) nds = Some sn \<and> find (\<lambda>n. n_id n = tgt) nds = Some tn \<longrightarrow>
        validateConnection nds eds src tgt =
          (if blocksOutput (connectionRules (nodeTypeOrEmpty sn))
             then Invalid (CannotBeOutputSource (label (n_data sn)))
           else if blocksInput (connectionRules (nodeTypeOrEmpty tn))
             then Invalid (CannotReceiveInput (label (n_data tn)))
           else case inputsFull (connectionRules (nodeTypeOrEmpty tn))
                       (currentInputCount eds tgt) of
                  Some m \<Rightarrow>
                    if nodeTypeOrEmpty tn = ''ai_compare''
                      then Invalid (AiCompareInputsFull (currentInputCount eds tgt))
                      else Invalid (MaxInputsReached (label (n_data tn)) m)
                | None \<Rightarrow>
                    if src = tgt then Invalid SelfConnection
                    else if \<exists>e \<in> set eds. source e = src \<and> target e = tgt
                      then Invalid DuplicateConnection
                    else Valid))
   \<and> (\<forall>n. src = tgt \<and> find (\<lambda>n. n_id n = src) nds = Some n \<longrightarrow>
          validateConnection nds eds src tgt \<noteq> Valid
        \<and> validateConnection nds eds src tgt =
            (if blocksOutput (connectionRules (nodeTypeOrEmpty n))
               then Invalid (CannotBeOutputSource (label (n_data n)))
             else if blocksInput (connectionRules (nodeTypeOrEmpty n))
               then Invalid (CannotReceiveInput (label (n_data n)))
             else case inputsFull (connectionRules (nodeTypeOrEmpty n))
                         (currentInputCount eds src) of
                    Some m \<Rightarrow>
                      if nodeTypeOrEmpty n = ''ai_compare''
                        then Invalid (AiCompareInputsFull (currentInputCount eds src))
                        else Invalid (MaxInputsReached (label (n_data n)) m)
                  | None \<Rightarrow> Invalid SelfConnection)
        \<and> (validateConnection nds eds src tgt = Invalid SelfConnection \<longleftrightarrow>
             \<not> blocksOutput (connectionRules (nodeTypeOrEmpty n))
           \<and> \<not> blocksInput (connectionRules (nodeTypeOrEmpty n))
           \<and> inputsFull (connectionRules (nodeTypeOrEmpty n)) (currentInputCount eds src)
               = None))"
proof -
  have dup: "(find (\<lambda>e. source e = src \<and> target e = tgt) eds \<noteq> None)
             = (\<exists>e \<in> set eds. source e = src \<and> target e = tgt)"
    by (auto simp: find_None_iff)
  have missing: "find (\<lambda>n. n_id n = src) nds = None \<or> find (\<lambda>n. n_id n = tgt) nds = None \<longrightarrow>
      validateConnection nds eds src tgt = Invalid NodeNotFound"
    by (auto simp: validateConnection_def split: option.splits)
  have chain: "validateConnection nds eds src tgt =
          (if blocksOutput (connectionRules (nodeTypeOrEmpty sn))
             then Invalid (CannotBeOutputSource (label (n_data sn)))
           else if blocksInput (connectionRules (nodeTypeOrEmpty tn))
             then Invalid (CannotReceiveInput (label (n_data tn)))
           else case inputsFull (connectionRules (nodeTypeOrEmpty tn))
                       (currentInputCount eds tgt) of
                  Some m \<Rightarrow>
                    if nodeTypeOrEmpty tn = ''ai_compare''
                      then Invalid (AiCompareInputsFull (currentInputCount eds tgt))
                      else Invalid (MaxInputsReached (label (n_data tn)) m)
                | None \<Rightarrow>
                    if src = tgt then Invalid SelfConnection
                    else if \<exists>e \<in> set eds. source e = src \<and> target e = tgt
                      then Invalid DuplicateConnection
                    else Valid)"
    if "find (\<lambda>n. n_id n = src) nds = Some sn" "find (\<lambda>n. n_id n = tgt) nds = Some tn"
    for sn tn
  proof -
    have "validateConnection nds eds src tgt =
          (if blocksOutput (connectionRules (nodeTypeOrEmpty sn))
             then Invalid (CannotBeOutputSource (label (n_data sn)))
           else if blocksInput (connectionRules (nodeTypeOrEmpty tn))
             then Invalid (CannotReceiveInput (label (n_data tn)))
           else case inputsFull (connectionRules (nodeTypeOrEmpty tn))
                       (currentInputCount eds tgt) of
                  Some m \<Rightarrow>
                    if nodeTypeOrEmpty tn = ''ai_compare''
                      then Invalid (AiCompareInputsFull (currentInputCount eds tgt))
                      else Invalid (MaxInputsReached (label (n_data tn)) m)
                | None \<Rightarrow>
                    if src = tgt then Invalid SelfConnection
                    else if find (\<lambda>e. source e = src \<and> target e = tgt) eds \<noteq> None
                      then Invalid DuplicateConnection
                    else Valid)"
      using that by (simp add: validateConnection_def Let_def)
    then show ?thesis by (simp only: dup)
  qed
  have self: "validateConnection nds eds src tgt \<noteq> Valid
        \<and> validateConnection nds eds src tgt =
            (if blocksOutput (connectionRules (nodeTypeOrEmpty n))
               then Invalid (CannotBeOutputSource (label (n_data n)))
             else if blocksInput (connectionRules (nodeTypeOrEmpty n))
               then Invalid (CannotReceiveInput (label (n_data n)))
             else case inputsFull (connectionRules (nodeTypeOrEmpty n))
                         (currentInputCount eds src) of
                    Some m \<Rightarrow>
                      if nodeTypeOrEmpty n = ''ai_compare''
                        then Invalid (AiCompareInputsFull (currentInputCount eds src))
                        else Invalid (MaxInputsReached (label (n_data n)) m)
                  | None \<Rightarrow> Invalid SelfConnection)
        \<and> (validateConnection nds eds src tgt = Invalid SelfConnection \<longleftrightarrow>
             \<not> blocksOutput (connectionRules (nodeTypeOrEmpty n))
           \<and> \<not> blocksInput (connectionRules (nodeTypeOrEmpty n))
           \<and> inputsFull (connectionRules (nodeTypeOrEmpty n)) (currentInputCount eds src)
               = None)"
    if "src = tgt" "find (\<lambda>n. n_id n = src) nds = Some n" for n
    using that by (simp add: validateConnection_def Let_def split: option.splits)
  show ?thesis
  proof (intro conjI)
    show "find (\<lambda>n. n_id n = src) nds = None \<or> find (\<lambda>n. n_id n = tgt) nds = None \<longrightarrow>
      validateConnection nds eds src tgt = Invalid NodeNotFound"
      by (rule missing)
  next
    show "\<forall>sn tn.
        find (\<lambda>n. n_id n = src) nds = Some sn \<and> find (\<lambda>n. n_id n = tgt) nds = Some tn \<longrightarrow>
        validateConnection nds eds src tgt =
          (if blocksOutput (connectionRules (nodeTypeOrEmpty sn))
             then Invalid (CannotBeOutputSource (label (n_data sn)))
           else if blocksInput (connectionRules (nodeTypeOrEmpty tn))
             then Invalid (CannotReceiveInput (label (n_data tn)))
           else case inputsFull (connectionRules (nodeTypeOrEmpty tn))
                       (currentInputCount eds tgt) of
                  Some m \<Rightarrow>
                    if nodeTypeOrEmpty tn = ''ai_compare''
                      then Invalid (AiCompareInputsFull (currentInputCount eds tgt))
                      else Invalid (MaxInputsReached (label (n_data tn)) m)
                | None \<Rightarrow>
                    if src = tgt then Invalid SelfConnection
                    else if \<exists>e \<in> set eds. source e = src \<and> target e = tgt
                      then Invalid DuplicateConnection
                    else Valid)"
      by (intro allI impI, elim conjE, rule chain)
  next
    show "\<forall>n. src = tgt \<and> find (\<lambda>n. n_id n = src) nds = Some n \<longrightarrow>
          validateConnection nds eds src tgt \<noteq> Valid
        \<and> validateConnection nds eds src tgt =
            (if blocksOutput (connectionRules (nodeTypeOrEmpty n))
               then Invalid (CannotBeOutputSource (label (n_data n)))
             else if blocksInput (connectionRules (nodeTypeOrEmpty n))
               then Invalid (CannotReceiveInput (label (n_data n)))
             else case inputsFull (connectionRules (nodeTypeOrEmpty n))
                         (currentInputCount eds src) of
                    Some m \<Rightarrow>
                      if nodeTypeOrEmpty n = ''ai_compare''
                        then Invalid (AiCompareInputsFull (currentInputCount eds src))
                        else Invalid (MaxInputsReached (label (n_data n)) m)
                  | None \<Rightarrow> Invalid SelfConnection)
        \<and> (validateConnection nds eds src tgt = Invalid SelfConnection \<longleftrightarrow>
             \<not> blocksOutput (connectionRules (nodeTypeOrEmpty n))
           \<and> \<not> blocksInput (connectionRules (nodeTypeOrEmpty n))
           \<and> inputsFull (connectionRules (nodeTypeOrEmpty n)) (currentInputCount eds src)
               = None)"
      by (intro allI impI, elim conjE, rule self)
  qed
qed

theorem validateConnection_order_witness:
  "find (\<lambda>n. n_id n = ''merge1'') [fileNode, mergeNode] = Some mergeNode
   \<and> validateConnection [fileNode, mergeNode] [] ''merge1'' ''merge1'' = Invalid SelfConnection
   \<and> find (\<lambda>n. n_id n = ''in1'') [fileNode, mergeNode] = Some fileNode
   \<and> validateConnection [fileNode, mergeNode] [plainEdge ''e1'' ''in1'' ''merge1'']
         ''in1'' ''merge1'' = Invalid DuplicateConnection
   \<and> find (\<lambda>n. n_id n = ''ghost'') [fileNode, mergeNode] = None
   \<and> validateConnection [fileNode, mergeNode] [] ''ghost'' ''merge1'' = Invalid NodeNotFound"
proof -
  have m: "find (\<lambda>n. n_id n = ''merge1'') [fileNode, mergeNode] = Some mergeNode"
    and f: "find (\<lambda>n. n_id n = ''in1'') [fileNode, mergeNode] = Some fileNode"
    and g: "find (\<lambda>n. n_id n = ''ghost'') [fileNode, mergeNode] = None"
    by (simp_all add: example_defs)
  have out_ok: "\<not> blocksOutput (connectionRules (nodeTypeOrEmpty mergeNode))"
      "\<not> blocksOutput (connectionRules (nodeTypeOrEmpty fileNode))"
    and in_ok: "\<not> blocksInput (connectionRules (nodeTypeOrEmpty mergeNode))"
    and room: "inputsFull (connectionRules (nodeTypeOrEmpty mergeNode)) k = None" for k
    by (simp_all add: validator_defs example_defs)
  note at_self = validateConnection_order
    [of "''merge1''" "[fileNode, mergeNode]" "''merge1''" "[]",
     THEN conjunct2, THEN conjunct2, rule_format, OF conjI [OF refl m]]
  from at_self out_ok in_ok room
  have self: "validateConnection [fileNode, mergeNode] [] ''merge1'' ''merge1''
                = Invalid SelfConnection"
    by simp
  note at_pair = validateConnection_order
    [of "''in1''" "[fileNode, mergeNode]" "''merge1''" "[plainEdge ''e1'' ''in1'' ''merge1'']",
     THEN conjunct2, THEN conjunct1, rule_format, OF conjI [OF f m]]
  have dup: "validateConnection [fileNode, mergeNode] [plainEdge ''e1'' ''in1'' ''merge1'']
          ''in1'' ''merge1'' = Invalid DuplicateConnection"
    unfolding at_pair by (simp add: out_ok in_ok room plainEdge_def)
  note at_ghost = validateConnection_order
    [of "''ghost''" "[fileNode, mergeNode]" "''merge1''" "[]", THEN conjunct1, rule_format]
  have missing: "validateConnection [fileNode, mergeNode] [] ''ghost'' ''merge1''
                   = Invalid NodeNotFound"
    by (rule at_ghost, rule disjI1, rule g)
  from m self f dup g missing show ?thesis by (intro conjI)
qed

text \<open>
  An output node connected to itself is turned down because it cannot be an output
  source: the rule check answers before the self-connection check is reached.
\<close>

theorem self_connection_reason_counterexample:
  "find (\<lambda>n. n_id n = ''out1'') [saveNode1] = Some saveNode1
   \<and> validateConnection [saveNode1] [] ''out1'' ''out1''
       = Invalid (CannotBeOutputSource ''Save'')
   \<and> validateConnection [saveNode1] [] ''out1'' ''out1'' \<noteq> Invalid SelfConnection"
  by (simp add: validator_defs example_defs)

subsection \<open>The limit on incoming edges\<close>

text \<open>
  C3 (as the code has it). Let the rule of node type T in the table have the limit
  \<open>maxInputs = n\<close> with \<open>n \<ge> 0\<close>, and let an existing node of type T have at least \<open>n\<close>
  incoming edges. Then every connection to it is rejected, whatever the source. When
  \<open>n > 0\<close> and the source exists and may have an output, the rejection is the one of the
  capacity check; its message states the limit, and for \<open>ai_compare\<close> the current count as
  well.
  The capacity check is made for a positive limit only. For the types with limit 0 the
  rejection is that the source cannot be an output source or that the target cannot
  receive input.
\<close>

theorem capacity_rejection:
  assumes tgt: "find (\<lambda>n. n_id n = tgt) nds = Some tn"
    and rule: "connectionRules (nodeTypeOrEmpty tn) = OwnRule r"
    and lim: "0 \<le> maxInputs r"
    and full: "maxInputs r \<le> int (currentInputCount eds tgt)"
  shows "validateConnection nds eds src tgt \<noteq> Valid
       \<and> (\<forall>sn. find (\<lambda>n. n_id n = src) nds = Some sn \<longrightarrow>
            (0 < maxInputs r \<and> \<not> blocksOutput (connectionRules (nodeTypeOrEmpty sn)) \<longrightarrow>
               validateConnection nds eds src tgt =
                 Invalid (if nodeTypeOrEmpty tn = ''ai_compare''
                            then AiCompareInputsFull (currentInputCount eds tgt)
                            else MaxInputsReached (label (n_data tn)) (maxInputs r)))
          \<and> (maxInputs r = 0 \<longrightarrow>
               validateConnection nds eds src tgt
                 = Invalid (CannotBeOutputSource (label (n_data sn)))
             \<or> validateConnection nds eds src tgt
                 = Invalid (CannotReceiveInput (label (n_data tn)))))"
proof (cases "find (\<lambda>n. n_id n = src) nds")
  case None
  then show ?thesis by (simp add: validateConnection_def)
next
  case (Some sn)
  from table_input_limits [OF rule] lim
  consider (zero) "maxInputs r = 0" "\<not> canHaveInput r"
    | (pos) "0 < maxInputs r" "canHaveInput r"
    by auto
  then show ?thesis
  proof cases
    case zero
    then have "blocksInput (connectionRules (nodeTypeOrEmpty tn))"
      by (simp add: rule blocksInput_def)
    then show ?thesis
      using Some tgt zero by (simp add: validateConnection_def Let_def)
  next
    case pos
    then have bi: "\<not> blocksInput (connectionRules (nodeTypeOrEmpty tn))"
      by (simp add: rule blocksInput_def)
    have "inputsFull (connectionRules (nodeTypeOrEmpty tn)) (currentInputCount eds tgt)
            = Some (maxInputs r)"
      using pos full by (simp add: rule inputsFull_def)
    then show ?thesis
      using Some tgt pos bi by (simp add: validateConnection_def Let_def)
  qed
qed

theorem capacity_rejection_witness:
  "connectionRules (nodeTypeOrEmpty splitNode) = OwnRule (mkRule True True 1 (-1))
   \<and> currentInputCount [plainEdge ''e1'' ''in1'' ''split1''] ''split1'' = 1
   \<and> validateConnection [fileNode, mergeNode, splitNode]
         [plainEdge ''e1'' ''in1'' ''split1''] ''merge1'' ''split1''
       = Invalid (MaxInputsReached ''Split'' 1)"
proof -
  have src: "find (\<lambda>n. n_id n = ''merge1'') [fileNode, mergeNode, splitNode] = Some mergeNode"
    and tgt: "find (\<lambda>n. n_id n = ''split1'') [fileNode, mergeNode, splitNode] = Some splitNode"
    by (simp_all add: example_defs)
  have rule: "connectionRules (nodeTypeOrEmpty splitNode) = OwnRule (mkRule True True 1 (-1))"
    by (simp add: validator_defs example_defs)
  have cnt: "currentInputCount [plainEdge ''e1'' ''in1'' ''split1''] ''split1'' = 1"
    by (simp add: currentInputCount_def plainEdge_def)
  have lim: "0 \<le> maxInputs (mkRule True True 1 (-1))"
    and full: "maxInputs (mkRule True True 1 (-1))
                 \<le> int (currentInputCount [plainEdge ''e1'' ''in1'' ''split1''] ''split1'')"
    by (simp_all add: cnt mkRule_def)
  have pos: "0 < maxInputs (mkRule True True 1 (-1))"
    by (simp add: mkRule_def)
  have out: "\<not> blocksOutput (connectionRules (nodeTypeOrEmpty mergeNode))"
    by (simp add: validator_defs example_defs)
  from capacity_rejection [OF tgt rule lim full, of "''merge1''"] src pos out
  have "validateConnection [fileNode, mergeNode, splitNode]
          [plainEdge ''e1'' ''in1'' ''split1''] ''merge1'' ''split1''
        = Invalid (if nodeTypeOrEmpty splitNode = ''ai_compare''
                     then AiCompareInputsFull
                            (currentInputCount [plainEdge ''e1'' ''in1'' ''split1''] ''split1'')
                     else MaxInputsReached (label (n_data splitNode))
                            (maxInputs (mkRule True True 1 (-1))))"
    by blast
  then have "validateConnection [fileNode, mergeNode, splitNode]
          [plainEdge ''e1'' ''in1'' ''split1''] ''merge1'' ''split1''
        = Invalid (MaxInputsReached ''Split'' 1)"
    by (simp add: example_defs nodeTypeOrEmpty_def mkRule_def)
  with rule cnt show ?thesis by blast
qed

text \<open>
  A file input has the limit 0 and no incoming edge, so its count has reached its limit;
  the capacity check does not fire for it, and the connection is turned down because the
  node cannot receive input, with a message that states neither a count nor a limit.
\<close>

theorem capacity_check_counterexample:
  "connectionRules ''input_file'' = OwnRule (mkRule False True 0 (-1))
   \<and> maxInputs (mkRule False True 0 (-1)) = 0
   \<and> currentInputCount [] ''in1'' = 0
   \<and> inputsFull (connectionRules ''input_file'') (currentInputCount [] ''in1'') = None
   \<and> validateConnection [mergeNode, fileNode] [] ''merge1'' ''in1''
       = Invalid (CannotReceiveInput ''File'')"
  by (simp add: validator_defs example_defs)

subsection \<open>Node types without a rule\<close>

text \<open>
  When the read of \<open>connectionRules\<close> gives \<open>undefined\<close> for the type of the source and
  for the type of the target, none of the three rule checks can reject: what is left are
  the self-connection and the duplicate check.
\<close>

lemma undefined_rules_are_permissive:
  assumes "connectionRules (nodeTypeOrEmpty sn) = Undefined"
    and "connectionRules (nodeTypeOrEmpty tn) = Undefined"
    and "find (\<lambda>n. n_id n = src) nds = Some sn"
    and "find (\<lambda>n. n_id n = tgt) nds = Some tn"
  shows "validateConnection nds eds src tgt =
           (if src = tgt then Invalid SelfConnection
            else if find (\<lambda>e. source e = src \<and> target e = tgt) eds \<noteq> None
              then Invalid DuplicateConnection
            else Valid)"
  using assms
  by (simp add: validateConnection_def Let_def blocksOutput_def blocksInput_def inputsFull_def)

lemma unlisted_type_lookup:
  assumes "map_of connectionRulesEntries t = None" and "t \<notin> set objectPrototypeMembers"
  shows "connectionRules t = Undefined"
  using assms by (simp add: connectionRules_def)

text \<open>
  C8 (where the code departs from it). A type that has no entry in the table but is the
  name of a member that every object inherits does not read as \<open>undefined\<close>. In the
  workflow loaded below neither node type has an entry, the two nodes are distinct and no
  edge joins \<open>n1\<close> to \<open>n2\<close>; the connection is still rejected on rule grounds, because
  the source has the type \<open>constructor\<close>.
\<close>

theorem inherited_name_rejected:
  "map_of connectionRulesEntries ''constructor'' = None
   \<and> map_of connectionRulesEntries ''ocr_text'' = None
   \<and> map n_id (nodes (loadWorkflow ''wf1'' foreignWorkflow (editorWith [] [] None)))
       = [''n1'', ''n2'']
   \<and> map (nodeType \<circ> n_data)
         (nodes (loadWorkflow ''wf1'' foreignWorkflow (editorWith [] [] None)))
       = [Some ''constructor'', Some ''ocr_text'']
   \<and> validateConnection
         (nodes (loadWorkflow ''wf1'' foreignWorkflow (editorWith [] [] None)))
         (edges (loadWorkflow ''wf1'' foreignWorkflow (editorWith [] [] None)))
         ''n1'' ''n2''
       = Invalid (CannotBeOutputSource ''Step'')"
  by (simp add: validator_defs example_defs foreignWorkflow_def loadWorkflow_def loadNode_def
      loadEdge_def orElse_def nodeTypeDefinitions_def)

section \<open>Connecting\<close>

lemma find_append_hit: "P e \<Longrightarrow> find P (es @ [e]) \<noteq> None"
  by (induction es) auto

text \<open>
  C5 (as the code has it). After a connection from a to b has been accepted, the same
  connection tried again at once is rejected, and the edge list holds exactly one edge
  from a to b. The reason is the duplicate reason unless the accepted edge has filled b up
  to its positive input limit: the capacity check comes before the duplicate check, so in
  that case the reason is that b has reached its maximum number of inputs.
\<close>

theorem repeated_connect_rejected:
  assumes cs: "c_source c = Some src" and ct: "c_target c = Some tgt"
    and ne: "src \<noteq> []" "tgt \<noteq> []"
    and tn: "find (\<lambda>n. n_id n = tgt) (nodes s) = Some tn"
    and ok: "validateConnection (nodes s) (edges s) src tgt = Valid"
  shows "edges (onConnect i1 c s)
           = edges s @ [\<lparr>e_id = i1, source = src, target = tgt,
                         sourceHandle = c_sourceHandle c, targetHandle = c_targetHandle c\<rparr>]
       \<and> validateConnection (nodes (onConnect i1 c s)) (edges (onConnect i1 c s)) src tgt =
           (case inputsFull (connectionRules (nodeTypeOrEmpty tn))
                   (Suc (currentInputCount (edges s) tgt)) of
              None \<Rightarrow> Invalid DuplicateConnection
            | Some m \<Rightarrow>
                if nodeTypeOrEmpty tn = ''ai_compare''
                  then Invalid (AiCompareInputsFull (Suc (currentInputCount (edges s) tgt)))
                  else Invalid (MaxInputsReached (label (n_data tn)) m))
       \<and> nodes (onConnect i2 c (onConnect i1 c s)) = nodes s
       \<and> edges (onConnect i2 c (onConnect i1 c s)) = edges (onConnect i1 c s)
       \<and> length (filter (\<lambda>e. source e = src \<and> target e = tgt)
                   (edges (onConnect i2 c (onConnect i1 c s)))) = 1"
proof -
  let ?e = "\<lparr>e_id = i1, source = src, target = tgt,
             sourceHandle = c_sourceHandle c, targetHandle = c_targetHandle c\<rparr>"
  let ?s1 = "onConnect i1 c s"
  obtain sn where sn: "find (\<lambda>n. n_id n = src) (nodes s) = Some sn"
    using ok by (auto simp: validateConnection_def split: option.splits)
  have s1: "?s1 = s\<lparr>edges := edges s @ [?e]\<rparr>"
    using cs ct ne ok by (simp add: onConnect_def addEdge_def)
  have bo: "\<not> blocksOutput (connectionRules (nodeTypeOrEmpty sn))"
    and bi: "\<not> blocksInput (connectionRules (nodeTypeOrEmpty tn))"
    and distinct_ends: "src \<noteq> tgt"
    and fresh: "find (\<lambda>e. source e = src \<and> target e = tgt) (edges s) = None"
    using ok sn tn
    by (auto simp: validateConnection_def Let_def split: option.splits if_splits)
  have cnt: "currentInputCount (edges ?s1) tgt = Suc (currentInputCount (edges s) tgt)"
    by (simp add: s1 currentInputCount_def)
  have dup: "find (\<lambda>e. source e = src \<and> target e = tgt) (edges ?s1) \<noteq> None"
    unfolding s1 by (simp add: find_append_hit)
  have second: "validateConnection (nodes ?s1) (edges ?s1) src tgt =
           (case inputsFull (connectionRules (nodeTypeOrEmpty tn))
                   (Suc (currentInputCount (edges s) tgt)) of
              None \<Rightarrow> Invalid DuplicateConnection
            | Some m \<Rightarrow>
                if nodeTypeOrEmpty tn = ''ai_compare''
                  then Invalid (AiCompareInputsFull (Suc (currentInputCount (edges s) tgt)))
                  else Invalid (MaxInputsReached (label (n_data tn)) m))"
  proof -
    have n1: "nodes ?s1 = nodes s" by (simp add: s1)
    show ?thesis
      unfolding validateConnection_def n1 using sn tn bo bi distinct_ends dup
      by (simp add: Let_def cnt split: option.splits)
  qed
  then obtain r where rej: "validateConnection (nodes ?s1) (edges ?s1) src tgt = Invalid r"
    by (auto split: option.splits if_splits)
  have s2: "onConnect i2 c ?s1 = ?s1\<lparr>connectionError := Some r\<rparr>"
    using cs ct ne rej by (simp add: onConnect_def)
  have none_before: "filter (\<lambda>e. source e = src \<and> target e = tgt) (edges s) = []"
    using fresh by (simp add: find_None_iff filter_empty_conv)
  have one: "length (filter (\<lambda>e. source e = src \<and> target e = tgt) (edges ?s1)) = 1"
    by (simp add: s1 none_before)
  show ?thesis
    using second one by (simp add: s2) (simp add: s1)
qed

theorem repeated_connect_rejected_witness:
  "validateConnection [fileNode, mergeNode] [] ''in1'' ''merge1'' = Valid
   \<and> validateConnection
         (nodes (onConnect ''e1'' (connect ''in1'' ''merge1'')
                   (editorWith [fileNode, mergeNode] [] None)))
         (edges (onConnect ''e1'' (connect ''in1'' ''merge1'')
                   (editorWith [fileNode, mergeNode] [] None)))
         ''in1'' ''merge1''
       = Invalid DuplicateConnection
   \<and> length (filter (\<lambda>e. source e = ''in1'' \<and> target e = ''merge1'')
         (edges (onConnect ''e2'' (connect ''in1'' ''merge1'')
                   (onConnect ''e1'' (connect ''in1'' ''merge1'')
                      (editorWith [fileNode, mergeNode] [] None))))) = 1"
proof -
  let ?s = "editorWith [fileNode, mergeNode] [] None"
  let ?s1 = "onConnect ''e1'' (connect ''in1'' ''merge1'') ?s"
  have cs: "c_source (connect ''in1'' ''merge1'') = Some ''in1''"
    and ct: "c_target (connect ''in1'' ''merge1'') = Some ''merge1''"
    by (simp_all add: connect_def)
  have ne: "''in1'' \<noteq> []" "''merge1'' \<noteq> []" by simp_all
  have tn: "find (\<lambda>n. n_id n = ''merge1'') (nodes ?s) = Some mergeNode"
    by (simp add: example_defs)
  have ok0: "validateConnection [fileNode, mergeNode] [] ''in1'' ''merge1'' = Valid"
    by (simp add: validator_defs example_defs)
  then have ok: "validateConnection (nodes ?s) (edges ?s) ''in1'' ''merge1'' = Valid"
    by (simp add: editorWith_def)
  have free: "inputsFull (connectionRules (nodeTypeOrEmpty mergeNode))
                (Suc (currentInputCount (edges ?s) ''merge1'')) = None"
    by (simp add: validator_defs example_defs)
  note both = repeated_connect_rejected [OF cs ct ne tn ok, of "''e1''" "''e2''"]
  from both have "validateConnection (nodes ?s1) (edges ?s1) ''in1'' ''merge1'' =
           (case inputsFull (connectionRules (nodeTypeOrEmpty mergeNode))
                   (Suc (currentInputCount (edges ?s) ''merge1'')) of
              None \<Rightarrow> Invalid DuplicateConnection
            | Some m \<Rightarrow>
                if nodeTypeOrEmpty mergeNode = ''ai_compare''
                  then Invalid (AiCompareInputsFull (Suc (currentInputCount (edges ?s) ''merge1'')))
                  else Invalid (MaxInputsReached (label (n_data mergeNode)) m))"
    by blast
  then have second: "validateConnection (nodes ?s1) (edges ?s1) ''in1'' ''merge1''
                       = Invalid DuplicateConnection"
    by (simp only: free option.case)
  from both have one: "length (filter (\<lambda>e. source e = ''in1'' \<and> target e = ''merge1'')
         (edges (onConnect ''e2'' (connect ''in1'' ''merge1'') ?s1))) = 1"
    by blast
  from ok0 second one show ?thesis by blast
qed

text \<open>
  A split takes one input. Once the file is connected to it, the same connection tried
  again is rejected because the split has reached its maximum number of inputs, not as a
  duplicate.
\<close>

theorem repeated_connect_counterexample:
  "validateConnection [fileNode, splitNode] [] ''in1'' ''split1'' = Valid
   \<and> validateConnection
         (nodes (onConnect ''e1'' (connect ''in1'' ''split1'')
                   (editorWith [fileNode, splitNode] [] None)))
         (edges (onConnect ''e1'' (connect ''in1'' ''split1'')
                   (editorWith [fileNode, splitNode] [] None)))
         ''in1'' ''split1''
       = Invalid (MaxInputsReached ''Split'' 1)
   \<and> validateConnection
         (nodes (onConnect ''e1'' (connect ''in1'' ''split1'')
                   (editorWith [fileNode, splitNode] [] None)))
         (edges (onConnect ''e1'' (connect ''in1'' ''split1'')
                   (editorWith [fileNode, splitNode] [] None)))
         ''in1'' ''split1''
       \<noteq> Invalid DuplicateConnection"
  by (simp add: onConnect_def addEdge_def validator_defs example_defs)

text \<open>
  C6. Whenever the validator rejects the proposed edge, \<open>onConnect\<close> leaves the node list
  and the edge list as they were. The state it returns differs from the one it was given
  in \<open>connectionError\<close> only, which holds the rejection (nothing at all happens when the
  source or the target is the empty string, since the validator is then not called).
\<close>

theorem onConnect_rejected_keeps_graph:
  assumes "c_source c = Some src" and "c_target c = Some tgt"
    and "validateConnection (nodes s) (edges s) src tgt = Invalid r"
  shows "nodes (onConnect newId c s) = nodes s
       \<and> edges (onConnect newId c s) = edges s
       \<and> onConnect newId c s =
           (if src = [] \<or> tgt = [] then s else s\<lparr>connectionError := Some r\<rparr>)"
  using assms by (simp add: onConnect_def)

theorem onConnect_rejected_keeps_graph_witness:
  "validateConnection [saveNode1, fileNode] [] ''out1'' ''in1''
       = Invalid (CannotBeOutputSource ''Save'')
   \<and> nodes (onConnect ''e1'' (connect ''out1'' ''in1'') (editorWith [saveNode1, fileNode] [] None))
       = [saveNode1, fileNode]
   \<and> edges (onConnect ''e1'' (connect ''out1'' ''in1'') (editorWith [saveNode1, fileNode] [] None))
       = []
   \<and> connectionError
         (onConnect ''e1'' (connect ''out1'' ''in1'') (editorWith [saveNode1, fileNode] [] None))
       = Some (CannotBeOutputSource ''Save'')"
proof -
  have rej: "validateConnection (nodes (editorWith [saveNode1, fileNode] [] None))
               (edges (editorWith [saveNode1, fileNode] [] None)) ''out1'' ''in1''
             = Invalid (CannotBeOutputSource ''Save'')"
    by (simp add: validator_defs example_defs)
  have src: "c_source (connect ''out1'' ''in1'') = Some ''out1''"
    and tgt: "c_target (connect ''out1'' ''in1'') = Some ''in1''"
    by (simp_all add: connect_def)
  show ?thesis
    using rej onConnect_rejected_keeps_graph [OF src tgt rej, of "''e1''"]
    by (simp add: editorWith_def)
qed

section \<open>Deleting the selected node\<close>

text \<open>
  C7. Deleting the selected node removes it from the node list and, in the same step,
  removes every edge whose source or target is its id: no edge that remains is incident to
  it. The selection is cleared. Every other node and every other edge is kept, in the
  order it had, and the rest of the state is untouched.
\<close>

theorem deleteSelectedNode_cascade:
  assumes "selectedNode s = Some sel"
  shows "nodes (deleteSelectedNode s) = filter (\<lambda>n. n_id n \<noteq> n_id sel) (nodes s)
       \<and> edges (deleteSelectedNode s)
           = filter (\<lambda>e. source e \<noteq> n_id sel \<and> target e \<noteq> n_id sel) (edges s)
       \<and> (\<forall>e \<in> set (edges (deleteSelectedNode s)). source e \<noteq> n_id sel \<and> target e \<noteq> n_id sel)
       \<and> (\<forall>n \<in> set (nodes (deleteSelectedNode s)). n_id n \<noteq> n_id sel)
       \<and> selectedNode (deleteSelectedNode s) = None
       \<and> connectionError (deleteSelectedNode s) = connectionError s
       \<and> workflowName (deleteSelectedNode s) = workflowName s
       \<and> workflowId (deleteSelectedNode s) = workflowId s"
  using assms by (simp add: deleteSelectedNode_def)

theorem deleteSelectedNode_cascade_witness:
  "nodes (deleteSelectedNode
       (editorWith [fileNode, splitNode, saveNode1]
          [plainEdge ''e1'' ''in1'' ''split1'', plainEdge ''e2'' ''split1'' ''out1'',
           plainEdge ''e3'' ''in1'' ''out1''] (Some splitNode)))
     = [fileNode, saveNode1]
   \<and> edges (deleteSelectedNode
       (editorWith [fileNode, splitNode, saveNode1]
          [plainEdge ''e1'' ''in1'' ''split1'', plainEdge ''e2'' ''split1'' ''out1'',
           plainEdge ''e3'' ''in1'' ''out1''] (Some splitNode)))
     = [plainEdge ''e3'' ''in1'' ''out1'']
   \<and> selectedNode (deleteSelectedNode
       (editorWith [fileNode, splitNode, saveNode1]
          [plainEdge ''e1'' ''in1'' ''split1'', plainEdge ''e2'' ''split1'' ''out1'',
           plainEdge ''e3'' ''in1'' ''out1''] (Some splitNode)))
     = None"
  using deleteSelectedNode_cascade
    [of "editorWith [fileNode, splitNode, saveNode1]
          [plainEdge ''e1'' ''in1'' ''split1'', plainEdge ''e2'' ''split1'' ''out1'',
           plainEdge ''e3'' ''in1'' ''out1''] (Some splitNode)" splitNode]
  by (simp add: example_defs)


section \<open>Auto-arrange\<close>

declare bfsLoop.simps [simp del]

subsection \<open>The levels\<close>

lemma distinct_foldl_setAdd: "distinct acc \<Longrightarrow> distinct (foldl setAdd acc xs)"
  by (induction xs arbitrary: acc) (auto simp: setAdd_def)

lemma distinct_pushTarget_fold:
  "distinct acc \<Longrightarrow> distinct (foldl (pushTarget visited) acc es)"
  by (induction es arbitrary: acc) (auto simp: pushTarget_def)

lemma distinct_nextLevel_fold:
  "distinct acc \<Longrightarrow>
   distinct (foldl (\<lambda>nextLevel nodeId.
              foldl (pushTarget visited) nextLevel (filter (\<lambda>e. source e = nodeId) eds))
          acc cur)"
  by (induction cur arbitrary: acc) (auto simp: distinct_pushTarget_fold)

lemma distinct_nextLevelOf: "distinct (nextLevelOf eds visited cur)"
  by (simp add: nextLevelOf_def distinct_nextLevel_fold)

lemma bfsLoop_levelsOk:
  assumes "levelsOk visited levels" and "distinct cur" and "set cur \<inter> set visited = {}"
  shows "levelsOk (fst (bfsLoop eds visited levels cur)) (snd (bfsLoop eds visited levels cur))"
  using assms
proof (induction eds visited levels cur rule: bfsLoop.induct)
  case (1 eds visited levels cur)
  show ?case
  proof (cases "cur = []")
    case True
    with "1.prems" show ?thesis by (simp add: bfsLoop.simps)
  next
    case False
    let ?levels' = "levels @ [cur]"
    let ?visited' = "foldl setAdd visited cur"
    let ?next = "nextLevelOf eds ?visited' cur"
    have ok': "levelsOk ?visited' ?levels'"
      using "1.prems" False by (auto simp: levelsOk_def set_foldl_setAdd)
    have dn: "distinct ?next" by (rule distinct_nextLevelOf)
    have disj: "set ?next \<inter> set ?visited' = {}"
      using nextLevelOf_subset [of eds ?visited' cur] by auto
    have "levelsOk (fst (bfsLoop eds ?visited' ?levels' ?next))
            (snd (bfsLoop eds ?visited' ?levels' ?next))"
      using "1.IH" [OF False refl refl ok' dn disj] .
    then show ?thesis
      using False by (subst (1 2) bfsLoop.simps) (simp add: Let_def)
  qed
qed

lemma addUnconnected_levelsOk:
  assumes "levelsOk (fst st) (snd st)"
  shows "levelsOk (fst (addUnconnected st n)) (snd (addUnconnected st n))
       \<and> set (fst st) \<union> {n_id n} \<subseteq> set (fst (addUnconnected st n))"
  using assms by (cases st) (auto simp: addUnconnected_def levelsOk_def setAdd_def)

lemma foldl_addUnconnected_levelsOk:
  assumes "levelsOk (fst st) (snd st)"
  shows "levelsOk (fst (foldl addUnconnected st nds)) (snd (foldl addUnconnected st nds))
       \<and> set (fst st) \<union> n_id ` set nds \<subseteq> set (fst (foldl addUnconnected st nds))"
  using assms
proof (induction nds arbitrary: st)
  case Nil
  then show ?case by simp
next
  case (Cons n nds)
  from addUnconnected_levelsOk [OF Cons.prems, of n]
  have ok: "levelsOk (fst (addUnconnected st n)) (snd (addUnconnected st n))"
    and sub: "set (fst st) \<union> {n_id n} \<subseteq> set (fst (addUnconnected st n))"
    by auto
  from Cons.IH [OF ok] sub show ?case by auto
qed

lemma computeLevels_ok:
  "distinct (concat (computeLevels nds eds))
   \<and> n_id ` set nds \<subseteq> set (concat (computeLevels nds eds))
   \<and> [] \<notin> set (computeLevels nds eds)"
proof -
  let ?b = "bfsLoop eds [] [] (inputNodeIds nds eds)"
  have "distinct (inputNodeIds nds eds)"
    by (simp add: inputNodeIds_def distinct_foldl_setAdd)
  then have "levelsOk (fst ?b) (snd ?b)"
    by (intro bfsLoop_levelsOk) (simp_all add: levelsOk_def)
  from foldl_addUnconnected_levelsOk [OF this, of nds]
  show ?thesis by (auto simp: computeLevels_def levelsOk_def)
qed


subsection \<open>The positions\<close>

lemma foldl_assign_lookup:
  assumes f: "\<And>m k v. f m (k, v) = m(k \<mapsto> v)"
    and "distinct (map fst xs)" and "(k, v) \<in> set xs"
  shows "foldl f m xs k = Some v"
  using assms(2,3)
proof (induction xs arbitrary: m rule: rev_induct)
  case Nil
  then show ?case by simp
next
  case (snoc kv xs)
  obtain k' v' where kv: "kv = (k', v')" by (cases kv)
  show ?case
  proof (cases "k' = k")
    case True
    with snoc.prems kv have "v' = v"
      by (auto simp: image_iff)
    with True kv show ?thesis by (simp add: f)
  next
    case False
    with snoc.prems kv have "(k, v) \<in> set xs" by auto
    moreover from snoc.prems have "distinct (map fst xs)" by simp
    ultimately have "foldl f m xs k = Some v"
      by (rule snoc.IH [rotated])
    with False kv show ?thesis by (simp add: f)
  qed
qed

lemma enumerate_level_keys:
  "map fst (map (\<lambda>(nodeIndex, nodeId). (nodeId, f nodeIndex)) (enumerate k level)) = level"
  by (induction level arbitrary: k) auto

lemma positionAssignments_keys_from:
  "map fst (concat (map (\<lambda>(levelIndex, level).
                    map (\<lambda>(nodeIndex, nodeId).
                           (nodeId, newPosition levelIndex (length level) nodeIndex))
                      (enumerate 0 level))
               (enumerate k levels))) = concat levels"
  by (induction levels arbitrary: k) (auto simp: enumerate_level_keys simp del: map_map)

lemma positionAssignments_keys: "map fst (positionAssignments levels) = concat levels"
  by (simp add: positionAssignments_def positionAssignments_keys_from)

lemma positionAssignments_member:
  assumes "li < length levels" and "ni < length (levels ! li)"
  shows "(levels ! li ! ni, newPosition li (length (levels ! li)) ni)
           \<in> set (positionAssignments levels)"
proof -
  have a: "(li, levels ! li) \<in> set (enumerate 0 levels)"
    using assms(1) by (simp add: in_set_enumerate_eq)
  have b: "(ni, levels ! li ! ni) \<in> set (enumerate 0 (levels ! li))"
    using assms(2) by (simp add: in_set_enumerate_eq)
  show ?thesis
    unfolding positionAssignments_def set_concat set_map
    using a b by (auto intro!: bexI [of _ "(li, levels ! li)"] image_eqI [of _ _ "(ni, levels ! li ! ni)"])
qed

lemma newPositions_lookup:
  assumes "distinct (concat levels)" and "li < length levels" and "ni < length (levels ! li)"
  shows "newPositions levels (levels ! li ! ni) = Some (newPosition li (length (levels ! li)) ni)"
  unfolding newPositions_def
  by (rule foldl_assign_lookup)
     (simp_all add: positionAssignments_keys assms positionAssignments_member)

lemma newPosition_plain:
  "newPosition li len ni =
     \<lparr>pos_x = START_X + real li * HORIZONTAL_GAP, pos_y = START_Y + real ni * VERTICAL_GAP\<rparr>"
  by (simp add: newPosition_def levelY_def)

lemma sum_list_stack: "2 * sum_list (map (\<lambda>i. a + real i * g) [0..<n]) = 2 * real n * a + g * (real n * (real n - 1))"
  by (induction n) (simp_all add: algebra_simps)

lemma level_ys:
  assumes "distinct (concat levels)" and "li < length levels"
  shows "map (\<lambda>nodeId. case newPositions levels nodeId of Some p \<Rightarrow> pos_y p | None \<Rightarrow> 0) (levels ! li)
         = map (\<lambda>i. START_Y + real i * VERTICAL_GAP) [0..<length (levels ! li)]"
  by (rule nth_equalityI) (simp_all add: newPositions_lookup [OF assms] newPosition_plain)

lemma in_concat_nth:
  "v \<in> set (concat xss) \<longleftrightarrow> (\<exists>i<length xss. \<exists>j<length (xss ! i). xss ! i ! j = v)"
proof
  assume "v \<in> set (concat xss)"
  then obtain xs where xs: "xs \<in> set xss" and v: "v \<in> set xs" by auto
  from xs obtain i where "i < length xss" "xss ! i = xs" by (auto simp: in_set_conv_nth)
  moreover from v obtain j where "j < length xs" "xs ! j = v" by (auto simp: in_set_conv_nth)
  ultimately show "\<exists>i<length xss. \<exists>j<length (xss ! i). xss ! i ! j = v" by auto
next
  assume "\<exists>i<length xss. \<exists>j<length (xss ! i). xss ! i ! j = v"
  then obtain i j where "i < length xss" "j < length (xss ! i)" "xss ! i ! j = v" by auto
  then have "xss ! i \<in> set xss" "v \<in> set (xss ! i)" by (auto simp: in_set_conv_nth)
  then show "v \<in> set (concat xss)" by auto
qed

lemma fanOut_levels:
  "computeLevels (nodes fanOut) (edges fanOut) = [[''in1''], [''split1'', ''merge1'']]"
  by code_simp

lemmas position_defs =
  newPositions_def positionAssignments_def newPosition_def levelY_def levelMeanY_def
  nodesOfLevel_def START_X_def START_Y_def HORIZONTAL_GAP_def VERTICAL_GAP_def

text \<open>Every id in a level is the id of a node or the target of an edge.\<close>

lemma bfsLoop_ids:
  assumes "set (concat levels) \<union> set cur \<subseteq> A" and "target ` set eds \<subseteq> A"
  shows "set (concat (snd (bfsLoop eds visited levels cur))) \<subseteq> A"
  using assms
proof (induction eds visited levels cur rule: bfsLoop.induct)
  case (1 eds visited levels cur)
  show ?case
  proof (cases "cur = []")
    case True
    with "1.prems" show ?thesis by (simp add: bfsLoop.simps)
  next
    case False
    let ?visited' = "foldl setAdd visited cur"
    let ?next = "nextLevelOf eds ?visited' cur"
    have "set ?next \<subseteq> A"
      using nextLevelOf_subset [of eds ?visited' cur] "1.prems"(2) by blast
    with "1.prems" have "set (concat (levels @ [cur])) \<union> set ?next \<subseteq> A"
      by auto
    from "1.IH" [OF False refl refl this "1.prems"(2)]
    show ?thesis
      using False by (subst bfsLoop.simps) (simp add: Let_def)
  qed
qed

lemma foldl_addUnconnected_ids:
  assumes "set (concat (snd st)) \<subseteq> A" and "n_id ` set nds \<subseteq> A"
  shows "set (concat (snd (foldl addUnconnected st nds))) \<subseteq> A"
  using assms
proof (induction nds arbitrary: st)
  case Nil
  then show ?case by simp
next
  case (Cons n nds)
  have "set (concat (snd (addUnconnected st n))) \<subseteq> A"
    using Cons.prems by (cases st) (auto simp: addUnconnected_def)
  with Cons.IH [of "addUnconnected st n"] Cons.prems show ?case by simp
qed

lemma computeLevels_ids:
  "set (concat (computeLevels nds eds)) \<subseteq> n_id ` set nds \<union> target ` set eds"
proof -
  let ?A = "n_id ` set nds \<union> target ` set eds"
  have "set (inputNodeIds nds eds) \<subseteq> ?A"
    by (auto simp: inputNodeIds_def set_foldl_setAdd)
  then have "set (concat (snd (bfsLoop eds [] [] (inputNodeIds nds eds)))) \<subseteq> ?A"
    by (intro bfsLoop_ids) auto
  then show ?thesis
    unfolding computeLevels_def by (rule foldl_addUnconnected_ids) auto
qed

text \<open>
  What auto-arrange does to the node at one place of the node list: it finds the one
  place of its id in the levels and sets the position that belongs to that place.
\<close>

lemma arranged_node:
  assumes ne: "nodes s \<noteq> []" and i: "i < length (nodes s)"
  shows "\<exists>li<length (computeLevels (nodes s) (edges s)).
         \<exists>ni<length (computeLevels (nodes s) (edges s) ! li).
           computeLevels (nodes s) (edges s) ! li ! ni = n_id (nodes s ! i)
         \<and> nodes (autoArrangeNodes s) ! i =
             (nodes s ! i)\<lparr>n_position := \<lparr>pos_x = START_X + real li * HORIZONTAL_GAP,
                                             pos_y = START_Y + real ni * VERTICAL_GAP\<rparr>\<rparr>"
proof -
  let ?L = "computeLevels (nodes s) (edges s)"
  from computeLevels_ok [of "nodes s" "edges s"]
  have d: "distinct (concat ?L)" and cover: "n_id ` set (nodes s) \<subseteq> set (concat ?L)"
    by auto
  have "nodes s ! i \<in> set (nodes s)" using i by simp
  with cover have "n_id (nodes s ! i) \<in> set (concat ?L)" by blast
  then obtain li ni where li: "li < length ?L" and ni: "ni < length (?L ! li)"
    and at: "?L ! li ! ni = n_id (nodes s ! i)"
    unfolding in_concat_nth by blast
  have "newPositions ?L (n_id (nodes s ! i)) = Some (newPosition li (length (?L ! li)) ni)"
    using newPositions_lookup [OF d li ni] at by simp
  then have "nodes (autoArrangeNodes s) ! i =
      (nodes s ! i)\<lparr>n_position := \<lparr>pos_x = START_X + real li * HORIZONTAL_GAP,
                                      pos_y = START_Y + real ni * VERTICAL_GAP\<rparr>\<rparr>"
    using ne i by (simp add: autoArrangeNodes_def Let_def newPosition_plain)
  with li ni at show ?thesis by blast
qed

text \<open>The y-coordinate of an arranged node is the one assigned to its id.\<close>

lemma arranged_y:
  assumes ne: "nodes s \<noteq> []"
  shows "map (\<lambda>n. pos_y (n_position n)) (nodesOfLevel (nodes (autoArrangeNodes s)) level)
       = map (\<lambda>nodeId. case newPositions (computeLevels (nodes s) (edges s)) nodeId of
                           Some p \<Rightarrow> pos_y p | None \<Rightarrow> 0)
           (filter (\<lambda>v. v \<in> set level) (map n_id (nodes s)))"
proof -
  let ?L = "computeLevels (nodes s) (edges s)"
  from computeLevels_ok [of "nodes s" "edges s"]
  have d: "distinct (concat ?L)" and cover: "n_id ` set (nodes s) \<subseteq> set (concat ?L)"
    by auto
  have some: "\<exists>p. newPositions ?L (n_id n) = Some p" if "n \<in> set (nodes s)" for n
  proof -
    from that cover have "n_id n \<in> set (concat ?L)" by auto
    then obtain li ni where "li < length ?L" "ni < length (?L ! li)" "?L ! li ! ni = n_id n"
      unfolding in_concat_nth by blast
    with newPositions_lookup [OF d, of li ni] show ?thesis by auto
  qed
  have "map (\<lambda>n. pos_y (n_position n))
          (filter (\<lambda>n. n_id n \<in> set level)
             (map (\<lambda>n. n\<lparr>n_position := (case newPositions ?L (n_id n) of
                                             Some p \<Rightarrow> p | None \<Rightarrow> n_position n)\<rparr>) ns))
        = map (\<lambda>nodeId. case newPositions ?L nodeId of Some p \<Rightarrow> pos_y p | None \<Rightarrow> 0)
            (filter (\<lambda>v. v \<in> set level) (map n_id ns))"
    if "set ns \<subseteq> set (nodes s)" for ns
    using that
  proof (induction ns)
    case Nil
    then show ?case by simp
  next
    case (Cons n ns)
    then have "n \<in> set (nodes s)" by simp
    from some [OF this] obtain p where "newPositions ?L (n_id n) = Some p" ..
    with Cons show ?case by simp
  qed
  from this [of "nodes s"] show ?thesis
    using ne by (simp add: autoArrangeNodes_def Let_def nodesOfLevel_def)
qed

lemma level_mean:
  assumes ne: "nodes s \<noteq> []"
    and ids: "distinct (map n_id (nodes s))"
    and closed: "target ` set (edges s) \<subseteq> n_id ` set (nodes s)"
    and li: "li < length (computeLevels (nodes s) (edges s))"
  shows "length (nodesOfLevel (nodes (autoArrangeNodes s))
                   (computeLevels (nodes s) (edges s) ! li))
           = length (computeLevels (nodes s) (edges s) ! li)"
    and "levelMeanY (nodes (autoArrangeNodes s)) (computeLevels (nodes s) (edges s) ! li)
           = START_Y + (real (length (computeLevels (nodes s) (edges s) ! li)) - 1)
               * VERTICAL_GAP / 2"
proof -
  let ?L = "computeLevels (nodes s) (edges s)"
  let ?level = "?L ! li"
  let ?ids = "filter (\<lambda>v. v \<in> set ?level) (map n_id (nodes s))"
  let ?g = "\<lambda>nodeId. case newPositions ?L nodeId of Some p \<Rightarrow> pos_y p | None \<Rightarrow> 0"
  let ?k = "real (length ?level)"
  from computeLevels_ok [of "nodes s" "edges s"]
  have d: "distinct (concat ?L)" and nonempty: "[] \<notin> set ?L" by auto
  have mem: "?level \<in> set ?L" using li by simp
  have dl: "distinct ?level" using d mem by (simp add: distinct_concat_iff)
  have "set ?level \<subseteq> set (concat ?L)" using mem by auto
  with computeLevels_ids [of "nodes s" "edges s"] closed
  have sub: "set ?level \<subseteq> n_id ` set (nodes s)" by blast
  have dids: "distinct ?ids" using ids by simp
  have sids: "set ?ids = set ?level" using sub by auto
  have len: "length ?ids = length ?level"
    using distinct_card [OF dids] distinct_card [OF dl] sids by simp
  have ys: "map (\<lambda>n. pos_y (n_position n)) (nodesOfLevel (nodes (autoArrangeNodes s)) ?level)
              = map ?g ?ids"
    by (rule arranged_y [OF ne])
  have "length (nodesOfLevel (nodes (autoArrangeNodes s)) ?level) = length (map ?g ?ids)"
    using arg_cong [OF ys, of length] by simp
  then show count: "length (nodesOfLevel (nodes (autoArrangeNodes s)) ?level) = length ?level"
    using len by simp
  have "sum_list (map ?g ?ids) = sum ?g (set ?ids)"
    using dids by (rule sum_list_distinct_conv_sum_set)
  also have "\<dots> = sum ?g (set ?level)" by (simp only: sids)
  also have "\<dots> = sum_list (map ?g ?level)"
    using dl by (rule sum_list_distinct_conv_sum_set [symmetric])
  also have "\<dots> = sum_list (map (\<lambda>i. START_Y + real i * VERTICAL_GAP) [0..<length ?level])"
    by (simp only: level_ys [OF d li])
  finally have total: "2 * sum_list (map ?g ?ids) = ?k * (2 * START_Y + VERTICAL_GAP * (?k - 1))"
    using sum_list_stack [of START_Y VERTICAL_GAP "length ?level"] by (simp add: algebra_simps)
  have k: "?k \<noteq> 0" using mem nonempty by auto
  from total k have "sum_list (map ?g ?ids) / ?k = START_Y + (?k - 1) * VERTICAL_GAP / 2"
    by (simp add: field_simps)
  then show "levelMeanY (nodes (autoArrangeNodes s)) ?level
               = START_Y + (?k - 1) * VERTICAL_GAP / 2"
    unfolding levelMeanY_def ys count by simp
qed

lemma fanOut_arranged:
  "nodes (autoArrangeNodes fanOut) =
     [fileNode\<lparr>n_position := \<lparr>pos_x = 100, pos_y = 100\<rparr>\<rparr>,
      splitNode\<lparr>n_position := \<lparr>pos_x = 350, pos_y = 100\<rparr>\<rparr>,
      mergeNode\<lparr>n_position := \<lparr>pos_x = 350, pos_y = 220\<rparr>\<rparr>]"
  unfolding autoArrangeNodes_def fanOut_levels
  by (simp add: example_defs Let_def position_defs)

text \<open>
  C2 (as the code has it). Auto-arrange keeps the node list, its order and its ids, and
  the edges, and changes positions only. The id of every node stands at exactly one place
  of the levels, at index \<open>ni\<close> of the level at index \<open>li\<close>, and the node gets
  \<open>x = START_X + li * HORIZONTAL_GAP\<close> and \<open>y = START_Y + ni * VERTICAL_GAP\<close>: every level
  is stacked downwards from the same top \<open>START_Y\<close>. When the node ids are distinct and
  every edge ends in a node of the graph, a level of \<open>k\<close> ids holds exactly \<open>k\<close> nodes and
  the mean of their y-coordinates is \<open>START_Y + (k - 1) * VERTICAL_GAP / 2\<close>: the centre
  depends on the number of nodes in the level, so levels of different sizes are not
  centred on a common baseline.
\<close>

theorem autoArrange_positions:
  assumes "nodes s \<noteq> []"
  shows "let L = computeLevels (nodes s) (edges s); s' = autoArrangeNodes s in
           distinct (concat L)
         \<and> s' = s\<lparr>nodes := nodes s'\<rparr>
         \<and> edges s' = edges s
         \<and> length (nodes s') = length (nodes s)
         \<and> map n_id (nodes s') = map n_id (nodes s)
         \<and> map n_data (nodes s') = map n_data (nodes s)
         \<and> (\<forall>i<length (nodes s). \<exists>li<length L. \<exists>ni<length (L ! li).
               L ! li ! ni = n_id (nodes s ! i)
             \<and> nodes s' ! i =
                 (nodes s ! i)\<lparr>n_position := \<lparr>pos_x = START_X + real li * HORIZONTAL_GAP,
                                                 pos_y = START_Y + real ni * VERTICAL_GAP\<rparr>\<rparr>)
         \<and> (distinct (map n_id (nodes s)) \<and> target ` set (edges s) \<subseteq> n_id ` set (nodes s) \<longrightarrow>
              (\<forall>li<length L.
                  length (nodesOfLevel (nodes s') (L ! li)) = length (L ! li)
                \<and> levelMeanY (nodes s') (L ! li)
                    = START_Y + (real (length (L ! li)) - 1) * VERTICAL_GAP / 2))"
proof -
  let ?L = "computeLevels (nodes s) (edges s)"
  let ?s' = "autoArrangeNodes s"
  have d: "distinct (concat ?L)"
    using computeLevels_ok [of "nodes s" "edges s"] by simp
  have o: "?s' = s\<lparr>nodes := nodes ?s'\<rparr>"
    by (simp add: autoArrangeNodes_def Let_def)
  have e: "edges ?s' = edges s"
    and l: "length (nodes ?s') = length (nodes s)"
    and i: "map n_id (nodes ?s') = map n_id (nodes s)"
    and dt: "map n_data (nodes ?s') = map n_data (nodes s)"
    by (simp_all add: autoArrangeNodes_def Let_def comp_def)
  have p: "\<forall>i<length (nodes s). \<exists>li<length ?L. \<exists>ni<length (?L ! li).
               ?L ! li ! ni = n_id (nodes s ! i)
             \<and> nodes ?s' ! i =
                 (nodes s ! i)\<lparr>n_position := \<lparr>pos_x = START_X + real li * HORIZONTAL_GAP,
                                                 pos_y = START_Y + real ni * VERTICAL_GAP\<rparr>\<rparr>"
    using arranged_node [OF assms] by blast
  have m: "\<forall>li<length ?L.
              length (nodesOfLevel (nodes ?s') (?L ! li)) = length (?L ! li)
            \<and> levelMeanY (nodes ?s') (?L ! li)
                = START_Y + (real (length (?L ! li)) - 1) * VERTICAL_GAP / 2"
    if "distinct (map n_id (nodes s))" "target ` set (edges s) \<subseteq> n_id ` set (nodes s)"
    using level_mean [OF assms that] by blast
  show ?thesis
    unfolding Let_def using d o e l i dt p m by blast
qed

theorem autoArrange_positions_witness:
  "nodes fanOut \<noteq> []
   \<and> distinct (map n_id (nodes fanOut))
   \<and> target ` set (edges fanOut) \<subseteq> n_id ` set (nodes fanOut)
   \<and> computeLevels (nodes fanOut) (edges fanOut) = [[''in1''], [''split1'', ''merge1'']]
   \<and> map n_id (nodes (autoArrangeNodes fanOut)) = [''in1'', ''split1'', ''merge1'']
   \<and> length (nodesOfLevel (nodes (autoArrangeNodes fanOut)) [''split1'', ''merge1'']) = 2
   \<and> levelMeanY (nodes (autoArrangeNodes fanOut)) [''split1'', ''merge1''] = 160"
proof -
  have ne: "nodes fanOut \<noteq> []"
    and ids: "distinct (map n_id (nodes fanOut))"
    and closed: "target ` set (edges fanOut) \<subseteq> n_id ` set (nodes fanOut)"
    and names: "map n_id (nodes fanOut) = [''in1'', ''split1'', ''merge1'']"
    by (simp_all add: example_defs)
  note all = autoArrange_positions [OF ne, unfolded Let_def]
  from all have same: "map n_id (nodes (autoArrangeNodes fanOut)) = map n_id (nodes fanOut)"
    by blast
  from all ids closed
  have "\<forall>li<length (computeLevels (nodes fanOut) (edges fanOut)).
      length (nodesOfLevel (nodes (autoArrangeNodes fanOut))
                (computeLevels (nodes fanOut) (edges fanOut) ! li))
        = length (computeLevels (nodes fanOut) (edges fanOut) ! li)
    \<and> levelMeanY (nodes (autoArrangeNodes fanOut))
          (computeLevels (nodes fanOut) (edges fanOut) ! li)
        = START_Y + (real (length (computeLevels (nodes fanOut) (edges fanOut) ! li)) - 1)
            * VERTICAL_GAP / 2"
    by blast
  note second = this [rule_format, of 1]
  have "1 < length (computeLevels (nodes fanOut) (edges fanOut))"
    by (simp add: fanOut_levels)
  from second [OF this]
  have "length (nodesOfLevel (nodes (autoArrangeNodes fanOut)) [''split1'', ''merge1'']) = 2
      \<and> levelMeanY (nodes (autoArrangeNodes fanOut)) [''split1'', ''merge1''] = 160"
    unfolding fanOut_levels by (simp add: START_Y_def VERTICAL_GAP_def)
  with ne ids closed fanOut_levels same names show ?thesis by simp
qed

text \<open>
  In the fan-out graph the first level has one node and the second has two. The single
  node sits at y = 100 and the pair at y = 100 and y = 220: the centres of the two levels
  are 100 and 160.
\<close>

theorem level_centre_counterexample:
  "computeLevels (nodes fanOut) (edges fanOut) = [[''in1''], [''split1'', ''merge1'']]
   \<and> map n_id (nodes (autoArrangeNodes fanOut)) = [''in1'', ''split1'', ''merge1'']
   \<and> map n_position (nodes (autoArrangeNodes fanOut))
       = [\<lparr>pos_x = 100, pos_y = 100\<rparr>, \<lparr>pos_x = 350, pos_y = 100\<rparr>,
          \<lparr>pos_x = 350, pos_y = 220\<rparr>]
   \<and> levelMeanY (nodes (autoArrangeNodes fanOut)) [''in1''] = 100
   \<and> levelMeanY (nodes (autoArrangeNodes fanOut)) [''split1'', ''merge1''] = 160
   \<and> levelMeanY (nodes (autoArrangeNodes fanOut)) [''in1'']
       \<noteq> levelMeanY (nodes (autoArrangeNodes fanOut)) [''split1'', ''merge1'']"
proof -
  have ids: "map n_id (nodes (autoArrangeNodes fanOut)) = [''in1'', ''split1'', ''merge1'']"
    unfolding fanOut_arranged by (simp add: example_defs)
  have pos: "map n_position (nodes (autoArrangeNodes fanOut))
       = [\<lparr>pos_x = 100, pos_y = 100\<rparr>, \<lparr>pos_x = 350, pos_y = 100\<rparr>,
          \<lparr>pos_x = 350, pos_y = 220\<rparr>]"
    unfolding fanOut_arranged by simp
  have m0: "levelMeanY (nodes (autoArrangeNodes fanOut)) [''in1''] = 100"
    unfolding fanOut_arranged by (simp add: levelMeanY_def nodesOfLevel_def example_defs)
  have m1: "levelMeanY (nodes (autoArrangeNodes fanOut)) [''split1'', ''merge1''] = 160"
    unfolding fanOut_arranged by (simp add: levelMeanY_def nodesOfLevel_def example_defs)
  have "levelMeanY (nodes (autoArrangeNodes fanOut)) [''in1'']
       \<noteq> levelMeanY (nodes (autoArrangeNodes fanOut)) [''split1'', ''merge1'']"
    unfolding m0 m1 by simp
  with fanOut_levels ids pos m0 m1 show ?thesis by blast
qed

subsection \<open>Running auto-arrange again\<close>

lemma isInputNode_position:
  "isInputNode eds (n\<lparr>n_position := p\<rparr>) = isInputNode eds n"
  by (simp add: isInputNode_def nodeTypeOrEmpty_def)

lemma addUnconnected_position:
  "addUnconnected st (n\<lparr>n_position := p\<rparr>) = addUnconnected st n"
  by (cases st) (simp add: addUnconnected_def)

lemma foldl_addUnconnected_position:
  "foldl addUnconnected st (map (\<lambda>n. n\<lparr>n_position := g n\<rparr>) nds) = foldl addUnconnected st nds"
  by (induction nds arbitrary: st) (simp_all add: addUnconnected_position)

lemma inputNodeIds_position:
  "inputNodeIds (map (\<lambda>n. n\<lparr>n_position := g n\<rparr>) nds) eds = inputNodeIds nds eds"
proof -
  have "map n_id (filter (isInputNode eds) (map (\<lambda>n. n\<lparr>n_position := g n\<rparr>) nds))
        = map n_id (filter (isInputNode eds) nds)"
    by (induction nds) (simp_all add: isInputNode_position)
  then show ?thesis by (simp add: inputNodeIds_def)
qed

lemma computeLevels_position:
  "computeLevels (map (\<lambda>n. n\<lparr>n_position := g n\<rparr>) nds) eds = computeLevels nds eds"
  by (simp add: computeLevels_def inputNodeIds_position foldl_addUnconnected_position)

text \<open>
  C9. Auto-arrange reads the ids and types of the nodes and the edges, never the
  positions. On the graph it has arranged it therefore computes the same levels again, and
  it gives every node the position it already has: running it a second time changes
  nothing. This holds for every graph, with or without disconnected nodes.
\<close>

theorem autoArrange_idempotent:
  "computeLevels (nodes (autoArrangeNodes s)) (edges (autoArrangeNodes s))
     = computeLevels (nodes s) (edges s)
   \<and> autoArrangeNodes (autoArrangeNodes s) = autoArrangeNodes s"
proof (cases "nodes s = []")
  case True
  then show ?thesis by (simp add: autoArrangeNodes_def)
next
  case False
  let ?np = "newPositions (computeLevels (nodes s) (edges s))"
  let ?g = "\<lambda>n. case ?np (n_id n) of Some p \<Rightarrow> p | None \<Rightarrow> n_position n"
  have s1: "autoArrangeNodes s = s\<lparr>nodes := map (\<lambda>n. n\<lparr>n_position := ?g n\<rparr>) (nodes s)\<rparr>"
    using False by (simp add: autoArrangeNodes_def Let_def)
  have lv: "computeLevels (nodes (autoArrangeNodes s)) (edges (autoArrangeNodes s))
            = computeLevels (nodes s) (edges s)"
    by (simp add: s1 computeLevels_position)
  have again: "map (\<lambda>n. n\<lparr>n_position := ?g n\<rparr>) (map (\<lambda>n. n\<lparr>n_position := ?g n\<rparr>) (nodes s))
               = map (\<lambda>n. n\<lparr>n_position := ?g n\<rparr>) (nodes s)"
    by (simp add: comp_def split: option.splits)
  have "autoArrangeNodes (autoArrangeNodes s) = autoArrangeNodes s"
    using False lv again
    by (subst (1) autoArrangeNodes_def) (simp add: s1 Let_def computeLevels_position)
  with lv show ?thesis by simp
qed


section \<open>Saving and loading\<close>

lemma loadNode_of_saveNode:
  "n_id (loadNode (saveNode n)) = n_id n"
  "n_position (loadNode (saveNode n)) = n_position n"
  "nodeType (n_data (loadNode (saveNode n))) = Some (orElse (nodeType (n_data n)) (n_type n))"
  by (simp_all add: loadNode_def saveNode_def Let_def)

lemma loadEdge_of_saveConnection:
  "e_id (loadEdge (saveConnection e)) = e_id e"
  "source (loadEdge (saveConnection e)) = source e"
  "target (loadEdge (saveConnection e)) = target e"
  by (simp_all add: loadEdge_def saveConnection_def)

lemma loaded_saved_state:
  "nodes (loadWorkflow wid (saveWorkflow s) s0) = map (loadNode \<circ> saveNode) (nodes s)"
  "edges (loadWorkflow wid (saveWorkflow s) s0) = map (loadEdge \<circ> saveConnection) (edges s)"
  by (simp_all add: loadWorkflow_def saveWorkflow_def orElse_def)

text \<open>
  C4 (as the code has it). Loading what was saved gives back the nodes with their ids and
  positions and the edges with their ids, sources and targets, in the same order. The
  \<open>nodeType\<close> of a loaded node is the type that was saved for it: the \<open>nodeType\<close> of the
  original node when it has a non-empty one, and otherwise its React Flow \<open>type\<close>. So
  the node types come back too for every graph in which each node has a non-empty
  \<open>nodeType\<close>.
\<close>

theorem save_load_roundtrip:
  "map n_id (nodes (loadWorkflow wid (saveWorkflow s) s0)) = map n_id (nodes s)
   \<and> map n_position (nodes (loadWorkflow wid (saveWorkflow s) s0)) = map n_position (nodes s)
   \<and> map (nodeType \<circ> n_data) (nodes (loadWorkflow wid (saveWorkflow s) s0))
       = map (\<lambda>n. Some (orElse (nodeType (n_data n)) (n_type n))) (nodes s)
   \<and> ((\<forall>n \<in> set (nodes s). \<exists>t. nodeType (n_data n) = Some t \<and> t \<noteq> []) \<longrightarrow>
        map (nodeType \<circ> n_data) (nodes (loadWorkflow wid (saveWorkflow s) s0))
          = map (nodeType \<circ> n_data) (nodes s))
   \<and> map e_id (edges (loadWorkflow wid (saveWorkflow s) s0)) = map e_id (edges s)
   \<and> map source (edges (loadWorkflow wid (saveWorkflow s) s0)) = map source (edges s)
   \<and> map target (edges (loadWorkflow wid (saveWorkflow s) s0)) = map target (edges s)"
proof -
  have types: "map (nodeType \<circ> n_data) (nodes (loadWorkflow wid (saveWorkflow s) s0))
       = map (\<lambda>n. Some (orElse (nodeType (n_data n)) (n_type n))) (nodes s)"
    by (simp add: loaded_saved_state loadNode_of_saveNode)
  have same: "map (nodeType \<circ> n_data) (nodes (loadWorkflow wid (saveWorkflow s) s0))
          = map (nodeType \<circ> n_data) (nodes s)"
    if "\<forall>n \<in> set (nodes s). \<exists>t. nodeType (n_data n) = Some t \<and> t \<noteq> []"
    unfolding types using that by (auto simp: orElse_def)
  show ?thesis
    using types same
    by (simp add: loaded_saved_state loadNode_of_saveNode loadEdge_of_saveConnection)
qed

theorem save_load_roundtrip_witness:
  "map (nodeType \<circ> n_data) (nodes fanOut)
     = [Some ''input_file'', Some ''pdf_split'', Some ''pdf_merge'']
   \<and> map (nodeType \<circ> n_data)
         (nodes (loadWorkflow ''wf1'' (saveWorkflow fanOut) (editorWith [] [] None)))
     = [Some ''input_file'', Some ''pdf_split'', Some ''pdf_merge'']
   \<and> map n_id (nodes (loadWorkflow ''wf1'' (saveWorkflow fanOut) (editorWith [] [] None)))
     = [''in1'', ''split1'', ''merge1'']
   \<and> map source (edges (loadWorkflow ''wf1'' (saveWorkflow fanOut) (editorWith [] [] None)))
     = [''in1'', ''in1'']
   \<and> map target (edges (loadWorkflow ''wf1'' (saveWorkflow fanOut) (editorWith [] [] None)))
     = [''split1'', ''merge1'']"
proof -
  have typed: "\<forall>n \<in> set (nodes fanOut). \<exists>t. nodeType (n_data n) = Some t \<and> t \<noteq> []"
    by (simp add: example_defs)
  have before: "map (nodeType \<circ> n_data) (nodes fanOut)
     = [Some ''input_file'', Some ''pdf_split'', Some ''pdf_merge'']"
    and ids: "map n_id (nodes fanOut) = [''in1'', ''split1'', ''merge1'']"
    and srcs: "map source (edges fanOut) = [''in1'', ''in1'']"
    and tgts: "map target (edges fanOut) = [''split1'', ''merge1'']"
    by (simp_all add: example_defs)
  note rt = save_load_roundtrip [of "''wf1''" fanOut "editorWith [] [] None"]
  from rt typed
  have "map (nodeType \<circ> n_data)
          (nodes (loadWorkflow ''wf1'' (saveWorkflow fanOut) (editorWith [] [] None)))
        = map (nodeType \<circ> n_data) (nodes fanOut)"
    by blast
  moreover from rt
  have "map n_id (nodes (loadWorkflow ''wf1'' (saveWorkflow fanOut) (editorWith [] [] None)))
          = map n_id (nodes fanOut)"
    and "map source (edges (loadWorkflow ''wf1'' (saveWorkflow fanOut) (editorWith [] [] None)))
          = map source (edges fanOut)"
    and "map target (edges (loadWorkflow ''wf1'' (saveWorkflow fanOut) (editorWith [] [] None)))
          = map target (edges fanOut)"
    by blast+
  ultimately show ?thesis
    unfolding before ids srcs tgts by blast
qed

text \<open>
  A node without a \<open>nodeType\<close> is saved under its React Flow type, and comes back with
  that as its \<open>nodeType\<close>.
\<close>

theorem save_load_type_counterexample:
  "nodeType (n_data untypedNode) = None
   \<and> map (nodeType \<circ> n_data)
         (nodes (loadWorkflow ''wf1'' (saveWorkflow (editorWith [untypedNode] [] None))
                   (editorWith [] [] None)))
     = [Some ''workflowNode'']
   \<and> map (nodeType \<circ> n_data)
         (nodes (loadWorkflow ''wf1'' (saveWorkflow (editorWith [untypedNode] [] None))
                   (editorWith [] [] None)))
     \<noteq> map (nodeType \<circ> n_data) (nodes (editorWith [untypedNode] [] None))"
  by (simp add: loaded_saved_state loadNode_of_saveNode example_defs orElse_def)

text \<open>
  C10. When the fetched workflow is not an error answer, the loaded edges are made from
  the ids and the end points of its connections only: no loaded edge has a source handle
  or a target handle, whatever handle names the connections carried. Saving the loaded
  state therefore writes every connection with the handles \<open>output\<close> and \<open>input\<close>.
\<close>

theorem load_drops_handles:
  assumes "orElse (wf_detail w) [] = []"
  shows "edges (loadWorkflow wid w s)
           = map loadEdge (case wf_connections w of None \<Rightarrow> [] | Some cs \<Rightarrow> cs)
       \<and> (\<forall>e \<in> set (edges (loadWorkflow wid w s)).
             sourceHandle e = None \<and> targetHandle e = None)
       \<and> wf_connections (saveWorkflow (loadWorkflow wid w s))
           = Some (map (\<lambda>c. \<lparr>sc_id = sc_id c, source_node = source_node c,
                                target_node = target_node c,
                                source_handle = Some ''output'',
                                target_handle = Some ''input''\<rparr>)
                     (case wf_connections w of None \<Rightarrow> [] | Some cs \<Rightarrow> cs))"
  using assms
  by (auto simp: loadWorkflow_def saveWorkflow_def loadEdge_def saveConnection_def orElse_def)

theorem load_drops_handles_witness:
  "wf_connections foreignWorkflow
     = Some [\<lparr>sc_id = ''c1'', source_node = ''n2'', target_node = ''n1'',
              source_handle = Some ''left'', target_handle = Some ''right''\<rparr>]
   \<and> wf_connections (saveWorkflow (loadWorkflow ''wf1'' foreignWorkflow (editorWith [] [] None)))
     = Some [\<lparr>sc_id = ''c1'', source_node = ''n2'', target_node = ''n1'',
              source_handle = Some ''output'', target_handle = Some ''input''\<rparr>]"
proof -
  have ok: "orElse (wf_detail foreignWorkflow) [] = []"
    by (simp add: foreignWorkflow_def orElse_def)
  have conns: "wf_connections foreignWorkflow
     = Some [\<lparr>sc_id = ''c1'', source_node = ''n2'', target_node = ''n1'',
              source_handle = Some ''left'', target_handle = Some ''right''\<rparr>]"
    by (simp add: foreignWorkflow_def)
  from load_drops_handles [OF ok, of "''wf1''" "editorWith [] [] None"]
  have "wf_connections (saveWorkflow (loadWorkflow ''wf1'' foreignWorkflow (editorWith [] [] None)))
     = Some (map (\<lambda>c. \<lparr>sc_id = sc_id c, source_node = source_node c,
                          target_node = target_node c,
                          source_handle = Some ''output'',
                          target_handle = Some ''input''\<rparr>)
               (case wf_connections foreignWorkflow of None \<Rightarrow> [] | Some cs \<Rightarrow> cs))"
    by blast
  then show ?thesis
    unfolding conns by simp
qed

end
